theory Spec2Isabelle
  imports Main
begin

section \<open>Python values\<close>

text \<open>
  The dictionaries that flow through the runner are parsed JSON (test specifications, model
  tool calls). A value is \<open>None\<close>, a bool, an unbounded int, a string, a list or a
  dictionary with string keys; a dictionary is an association list in insertion order, looked
  up with \<open>map_of\<close>. Strings are lists of characters with code points below 256.
  Floating-point numbers are left out of the value universe.
\<close>

datatype pyval =
    PNone
  | PBool bool
  | PInt int
  | PStr string
  | PList "pyval list"
  | PDict "(string \<times> pyval) list"

type_synonym pydict = "(string \<times> pyval) list"

text \<open>Exceptions, as values. \<open>UnknownCommand\<close> is the \<open>ValueError\<close> that
  \<open>execute_command\<close> raises itself; \<open>DeviceFailure\<close> is any exception raised
  inside a method of \<open>AndroidDevice\<close>; \<open>ProviderFailure\<close> any exception raised by
  the model backend; \<open>RecorderFailure\<close> any exception of the screen recorder.\<close>

datatype pyexn =
    TypeError
  | ValueError
  | KeyError string
  | AttributeError
  | UnknownCommand pyval
  | DeviceFailure
  | ProviderFailure
  | RecorderFailure

type_synonym 'a res = "pyexn + 'a"

text \<open>\<open>d.get(k, default)\<close>, \<open>d.get(k)\<close>, \<open>d[k]\<close> and \<open>k in d\<close>.\<close>

definition dget_default :: "pydict \<Rightarrow> string \<Rightarrow> pyval \<Rightarrow> pyval" where
  "dget_default d k dflt = (case map_of d k of Some v \<Rightarrow> v | None \<Rightarrow> dflt)"

definition dget :: "pydict \<Rightarrow> string \<Rightarrow> pyval" where
  "dget d k = dget_default d k PNone"

definition dindex :: "pydict \<Rightarrow> string \<Rightarrow> pyval res" where
  "dindex d k = (case map_of d k of Some v \<Rightarrow> Inr v | None \<Rightarrow> Inl (KeyError k))"

definition has_key :: "pydict \<Rightarrow> string \<Rightarrow> bool" where
  "has_key d k = (map_of d k \<noteq> None)"

text \<open>Truth value of a Python object, and \<open>a or b\<close>.\<close>

fun py_truthy :: "pyval \<Rightarrow> bool" where
  "py_truthy PNone = False"
| "py_truthy (PBool b) = b"
| "py_truthy (PInt n) = (n \<noteq> 0)"
| "py_truthy (PStr s) = (s \<noteq> [])"
| "py_truthy (PList xs) = (xs \<noteq> [])"
| "py_truthy (PDict d) = (d \<noteq> [])"

definition py_or :: "pyval \<Rightarrow> pyval \<Rightarrow> pyval" where
  "py_or a b = (if py_truthy a then a else b)"

subsection \<open>\<open>int(...)\<close>\<close>

definition char_code :: "char \<Rightarrow> nat" where
  "char_code c = of_char c"

definition is_digit :: "char \<Rightarrow> bool" where
  "is_digit c = (48 \<le> char_code c \<and> char_code c \<le> 57)"

text \<open>The characters \<open>str.strip()\<close> removes: the code points below 256 for which
  \<open>str.isspace\<close> holds (the separators 0x1C to 0x1F among them).\<close>

definition py_isspace :: "char \<Rightarrow> bool" where
  "py_isspace c = (let n = char_code c in
     (9 \<le> n \<and> n \<le> 13) \<or> (28 \<le> n \<and> n \<le> 32) \<or> n = 133 \<or> n = 160)"

definition py_strip :: "string \<Rightarrow> string" where
  "py_strip s = rev (dropWhile py_isspace (rev (dropWhile py_isspace s)))"

text \<open>
  The characters \<open>int()\<close> skips around a number are fewer: the white space of C (0x09 to
  0x0D and 0x20) and the two non-ASCII spaces below 256 (0x85 and 0xA0), which CPython
  turns into a space before it parses. The separators 0x1C to 0x1F are not skipped:
  \<open>int('\x1c300')\<close> raises \<open>ValueError\<close>.
\<close>

definition int_isspace :: "char \<Rightarrow> bool" where
  "int_isspace c = (let n = char_code c in
     (9 \<le> n \<and> n \<le> 13) \<or> n = 32 \<or> n = 133 \<or> n = 160)"

definition int_strip :: "string \<Rightarrow> string" where
  "int_strip s = rev (dropWhile int_isspace (rev (dropWhile int_isspace s)))"

text \<open>Decimal digits with single underscores between digits; the flag says that the
  previous character was a digit.\<close>

fun int_digits :: "bool \<Rightarrow> nat \<Rightarrow> string \<Rightarrow> nat option" where
  "int_digits d acc [] = (if d then Some acc else None)"
| "int_digits d acc (c # cs) =
     (if is_digit c then int_digits True (10 * acc + (char_code c - 48)) cs
      else if c = CHR ''_'' \<and> d then int_digits False acc cs
      else None)"

text \<open>The default limit of CPython (3.11 and later) on the number of digits of a string
  that \<open>int()\<close> converts; a longer number raises \<open>ValueError\<close>.\<close>

definition MAX_STR_DIGITS :: nat where
  "MAX_STR_DIGITS = 4300"

text \<open>\<open>int(s)\<close> for a string: white space skipped at both ends, an optional sign, then
  the digits.\<close>

definition int_of_str :: "string \<Rightarrow> int res" where
  "int_of_str s =
     (case int_strip s of
        [] \<Rightarrow> Inl ValueError
      | c # cs \<Rightarrow>
          (let body = (if c = CHR ''-'' \<or> c = CHR ''+'' then cs else c # cs)
           in case int_digits False 0 body of
                None \<Rightarrow> Inl ValueError
              | Some n \<Rightarrow>
                  if MAX_STR_DIGITS < length (filter is_digit body) then Inl ValueError
                  else Inr (if c = CHR ''-'' then - int n else int n)))"

fun py_int :: "pyval \<Rightarrow> int res" where
  "py_int PNone = Inl TypeError"
| "py_int (PBool b) = Inr (if b then 1 else 0)"
| "py_int (PInt n) = Inr n"
| "py_int (PStr s) = int_of_str s"
| "py_int (PList xs) = Inl TypeError"
| "py_int (PDict d) = Inl TypeError"

subsection \<open>\<open>str(...)\<close> and \<open>json.dumps(..., sort_keys=True)\<close>\<close>

definition digit_char :: "nat \<Rightarrow> char" where
  "digit_char n = char_of (48 + n)"

fun nat_digits :: "nat \<Rightarrow> string" where
  "nat_digits n = (if n < 10 then [digit_char n] else nat_digits (n div 10) @ [digit_char (n mod 10)])"

definition int_str :: "int \<Rightarrow> string" where
  "int_str i = (if i < 0 then CHR ''-'' # nat_digits (nat (- i)) else nat_digits (nat i))"

definition hex_char :: "nat \<Rightarrow> char" where
  "hex_char n = (if n < 10 then char_of (48 + n) else char_of (87 + n))"

definition hex2 :: "nat \<Rightarrow> string" where
  "hex2 n = [hex_char (n div 16), hex_char (n mod 16)]"

definition join_str :: "string \<Rightarrow> string list \<Rightarrow> string" where
  "join_str sep xs = (case xs of [] \<Rightarrow> [] | y # ys \<Rightarrow> y @ concat (map (\<lambda>z. sep @ z) ys))"

text \<open>\<open>repr\<close> of a string: single quotes unless the string has a single quote and no
  double quote; the quote and the backslash escaped, control characters and the
  non-printable code points written \<open>\xhh\<close>.\<close>

definition repr_char :: "char \<Rightarrow> char \<Rightarrow> string" where
  "repr_char q c = (let n = char_code c in
     if c = q \<or> n = 92 then [CHR 0x5C, c]
     else if n = 9 then [CHR 0x5C, CHR ''t'']
     else if n = 10 then [CHR 0x5C, CHR ''n'']
     else if n = 13 then [CHR 0x5C, CHR ''r'']
     else if n < 32 \<or> n = 127 \<or> (128 \<le> n \<and> n \<le> 160) \<or> n = 173 then [CHR 0x5C, CHR ''x''] @ hex2 n
     else [c])"

definition repr_str :: "string \<Rightarrow> string" where
  "repr_str s = (let q = (if CHR 0x27 \<in> set s \<and> CHR 0x22 \<notin> set s then CHR 0x22 else CHR 0x27)
     in [q] @ concat (map (repr_char q) s) @ [q])"

fun py_repr :: "pyval \<Rightarrow> string"
  and py_repr_list :: "pyval list \<Rightarrow> string list"
  and py_repr_items :: "(string \<times> pyval) list \<Rightarrow> string list" where
  "py_repr PNone = ''None''"
| "py_repr (PBool b) = (if b then ''True'' else ''False'')"
| "py_repr (PInt n) = int_str n"
| "py_repr (PStr s) = repr_str s"
| "py_repr (PList xs) = ''['' @ join_str '', '' (py_repr_list xs) @ '']''"
| "py_repr (PDict d) = ''{'' @ join_str '', '' (py_repr_items d) @ ''}''"
| "py_repr_list [] = []"
| "py_repr_list (v # vs) = py_repr v # py_repr_list vs"
| "py_repr_items [] = []"
| "py_repr_items (kv # kvs) = (repr_str (fst kv) @ '': '' @ py_repr (snd kv)) # py_repr_items kvs"

definition py_str :: "pyval \<Rightarrow> string" where
  "py_str v = (case v of PStr s \<Rightarrow> s | _ \<Rightarrow> py_repr v)"

text \<open>JSON text of a string (\<open>ensure_ascii\<close>): everything outside \<open>' '..'~'\<close>, the
  double quote and the backslash are escaped.\<close>

definition json_char :: "char \<Rightarrow> string" where
  "json_char c = (let n = char_code c in
     if n = 34 then [CHR 0x5C, CHR 0x22]
     else if n = 92 then [CHR 0x5C, CHR 0x5C]
     else if n = 10 then [CHR 0x5C, CHR ''n'']
     else if n = 13 then [CHR 0x5C, CHR ''r'']
     else if n = 9 then [CHR 0x5C, CHR ''t'']
     else if n = 8 then [CHR 0x5C, CHR ''b'']
     else if n = 12 then [CHR 0x5C, CHR ''f'']
     else if n < 32 \<or> 126 < n then [CHR 0x5C, CHR ''u'', CHR ''0'', CHR ''0''] @ hex2 n
     else [c])"

definition json_str :: "string \<Rightarrow> string" where
  "json_str s = [CHR 0x22] @ concat (map json_char s) @ [CHR 0x22]"

text \<open>Keys are compared as Python compares strings, code point by code point; the sort is
  a stable insertion sort.\<close>

fun str_le :: "string \<Rightarrow> string \<Rightarrow> bool" where
  "str_le [] ys = True"
| "str_le (c # cs) [] = False"
| "str_le (c # cs) (d # ds) = (char_code c < char_code d \<or> (c = d \<and> str_le cs ds))"

fun insert_item :: "string \<times> string \<Rightarrow> (string \<times> string) list \<Rightarrow> (string \<times> string) list" where
  "insert_item kv [] = [kv]"
| "insert_item kv (p # ps) = (if str_le (fst kv) (fst p) then kv # p # ps else p # insert_item kv ps)"

definition sort_items :: "(string \<times> string) list \<Rightarrow> (string \<times> string) list" where
  "sort_items kvs = foldr insert_item kvs []"

fun json_dumps :: "pyval \<Rightarrow> string"
  and json_list :: "pyval list \<Rightarrow> string list"
  and json_items :: "(string \<times> pyval) list \<Rightarrow> (string \<times> string) list" where
  "json_dumps PNone = ''null''"
| "json_dumps (PBool b) = (if b then ''true'' else ''false'')"
| "json_dumps (PInt n) = int_str n"
| "json_dumps (PStr s) = json_str s"
| "json_dumps (PList xs) = ''['' @ join_str '', '' (json_list xs) @ '']''"
| "json_dumps (PDict d) =
     ''{'' @ join_str '', '' (map (\<lambda>kv. json_str (fst kv) @ '': '' @ snd kv) (sort_items (json_items d))) @ ''}''"
| "json_list [] = []"
| "json_list (v # vs) = json_dumps v # json_list vs"
| "json_items [] = []"
| "json_items (kv # kvs) = (fst kv, json_dumps (snd kv)) # json_items kvs"

section \<open>Text sanitizer of the device layer (android_framework.py)\<close>

text \<open>The character class \<open>[A-Za-z0-9_%@.,:\-]\<close> of the sanitizer's regular expression.\<close>

definition safe_char :: "char \<Rightarrow> bool" where
  "safe_char c = (let n = char_code c in
     (65 \<le> n \<and> n \<le> 90) \<or> (97 \<le> n \<and> n \<le> 122) \<or> (48 \<le> n \<and> n \<le> 57)
     \<or> c \<in> set ''_%@.,:-'')"

definition replace_spaces :: "string \<Rightarrow> string" where
  "replace_spaces t = concat (map (\<lambda>c. if c = CHR '' '' then ''%s'' else [c]) t)"

definition sub_unsafe :: "string \<Rightarrow> string" where
  "sub_unsafe t = map (\<lambda>c. if safe_char c then c else CHR ''_'') t"

definition sanitize_text_for_adb_input :: "string \<Rightarrow> string" where
  "sanitize_text_for_adb_input t = sub_unsafe (replace_spaces t)"

text \<open>\<open>AndroidDevice.input_text\<close>: the arguments handed to adb.\<close>

definition input_text_argv :: "string \<Rightarrow> string list" where
  "input_text_argv t = [''shell'', ''input'', ''text'', sanitize_text_for_adb_input t]"

section \<open>Canvas dimensions (types.py, agent_runner.py)\<close>

record ScreenInfo =
  physical_width :: int
  physical_height :: int
  rotation_deg :: int

definition canvas_width :: "ScreenInfo \<Rightarrow> int" where
  "canvas_width s = (if rotation_deg s \<in> {90, 270} then physical_height s else physical_width s)"

definition canvas_height :: "ScreenInfo \<Rightarrow> int" where
  "canvas_height s = (if rotation_deg s \<in> {90, 270} then physical_width s else physical_height s)"

text \<open>The computation \<open>run_agent\<close> writes inline, at the start of a sub-goal and of each turn.\<close>

definition canvas_dims :: "int \<Rightarrow> int \<Rightarrow> int \<Rightarrow> int \<times> int" where
  "canvas_dims phy_w phy_h rotation =
     (if rotation \<in> {90, 270} then (phy_h, phy_w) else (phy_w, phy_h))"

section \<open>The device control interface\<close>

text \<open>
  The methods of \<open>AndroidDevice\<close> are external: the model records each call that is issued,
  in order, and an oracle (the position of the call in the trace, and the call) says whether
  the call returns or raises. \<open>Wait v\<close> stands for \<open>device.wait(float(v))\<close>, conversion
  included; \<open>Settle\<close> for \<open>device.wait(WAIT_BETWEEN_ACTIONS)\<close>.
  \<open>screenshot_with_marker\<close> catches its own failures and never raises.
\<close>

datatype shot_target = TempFile | PreclickMarked nat | EndTestFile nat | UserPath string

datatype dev_call =
    Tap int int
  | Swipe int int int int int
  | InputText string
  | Keyevent string
  | Wait pyval
  | Settle
  | Screenshot shot_target
  | ScreenshotWithMarker shot_target int int
  | LaunchApp string pyval
  | StopApp string

type_synonym device = "dev_call list"

type_synonym dev_oracle = "nat \<Rightarrow> dev_call \<Rightarrow> bool"

definition issue :: "dev_oracle \<Rightarrow> dev_call \<Rightarrow> device \<Rightarrow> unit res \<times> device" where
  "issue ok c dev = (if ok (length dev) c then Inr () else Inl DeviceFailure, dev @ [c])"

text \<open>Sequencing: a conversion that may raise, and a device step that may raise.\<close>

definition on_ok :: "'a res \<Rightarrow> 's \<Rightarrow> ('a \<Rightarrow> 'b res \<times> 's) \<Rightarrow> 'b res \<times> 's" where
  "on_ok r s f = (case r of Inl ex \<Rightarrow> (Inl ex, s) | Inr v \<Rightarrow> f v)"

definition and_then :: "'a res \<times> 's \<Rightarrow> ('a \<Rightarrow> 's \<Rightarrow> 'b res \<times> 's) \<Rightarrow> 'b res \<times> 's" where
  "and_then m f = (case m of (Inl ex, s) \<Rightarrow> (Inl ex, s) | (Inr v, s) \<Rightarrow> f v s)"

section \<open>Command dispatch (actions.py)\<close>

subsection \<open>\<open>execute_command\<close>\<close>

definition execute_command :: "dev_oracle \<Rightarrow> pydict \<Rightarrow> string \<Rightarrow> device \<Rightarrow> unit res \<times> device" where
  "execute_command ok step package dev =
    (let cmd = dget step ''cmd'' in
     if \<not> py_truthy cmd then (Inr (), dev)
     else if cmd = PStr ''wait'' then
       issue ok (Wait (dget_default step ''seconds'' (PInt 1))) dev
     else if cmd = PStr ''tap'' then
       on_ok (dindex step ''x'') dev (\<lambda>x. on_ok (py_int x) dev (\<lambda>xi.
       on_ok (dindex step ''y'') dev (\<lambda>y. on_ok (py_int y) dev (\<lambda>yi.
       issue ok (Tap xi yi) dev))))
     else if cmd = PStr ''swipe'' then
       on_ok (dindex step ''x1'') dev (\<lambda>x1. on_ok (py_int x1) dev (\<lambda>x1i.
       on_ok (dindex step ''y1'') dev (\<lambda>y1. on_ok (py_int y1) dev (\<lambda>y1i.
       on_ok (dindex step ''x2'') dev (\<lambda>x2. on_ok (py_int x2) dev (\<lambda>x2i.
       on_ok (dindex step ''y2'') dev (\<lambda>y2. on_ok (py_int y2) dev (\<lambda>y2i.
       on_ok (py_int (dget_default step ''duration_ms'' (PInt 300))) dev (\<lambda>duration_ms.
       issue ok (Swipe x1i y1i x2i y2i duration_ms) dev)))))))))
     else if cmd = PStr ''input_text'' then
       on_ok (dindex step ''text'') dev (\<lambda>t. issue ok (InputText (py_str t)) dev)
     else if cmd = PStr ''keyevent'' then
       issue ok (Keyevent (py_str (py_or (dget step ''code'') (dget step ''name'')))) dev
     else if cmd = PStr ''back'' then issue ok (Keyevent ''4'') dev
     else if cmd = PStr ''home'' then issue ok (Keyevent ''3'') dev
     else if cmd = PStr ''screenshot'' then
       on_ok (dindex step ''path'') dev (\<lambda>p.
         case p of PStr s \<Rightarrow> issue ok (Screenshot (UserPath s)) dev | _ \<Rightarrow> (Inl TypeError, dev))
     else if cmd = PStr ''launch'' then
       issue ok (LaunchApp (py_str (dget_default step ''package'' (PStr package))) (dget step ''activity'')) dev
     else if cmd = PStr ''stop'' then
       issue ok (StopApp (py_str (dget_default step ''package'' (PStr package)))) dev
     else (Inl (UnknownCommand cmd), dev))"

subsection \<open>\<open>map_computer_action\<close>\<close>

text \<open>The path fallback of a drag: taken when \<open>x2\<close> or \<open>y2\<close> is \<open>None\<close>; an exception
  inside it (a point that is not a dict has no \<open>get\<close>) is swallowed, keeping the
  assignments made before it.\<close>

definition drag_path :: "pyval \<Rightarrow> pyval \<times> pyval \<times> pyval \<times> pyval \<Rightarrow> pyval \<times> pyval \<times> pyval \<times> pyval" where
  "drag_path path c =
     (case c of (x, y, x2, y2) \<Rightarrow>
       (case path of
          PList ps \<Rightarrow>
            if 2 \<le> length ps then
              (case hd ps of
                 PDict start \<Rightarrow>
                   (let x' = dget_default start ''x'' x; y' = dget_default start ''y'' y in
                    case last ps of
                      PDict end' \<Rightarrow> (x', y', dget end' ''x'', dget end' ''y'')
                    | _ \<Rightarrow> (x', y', x2, y2))
               | _ \<Rightarrow> (x, y, x2, y2))
            else (x, y, x2, y2)
        | _ \<Rightarrow> (x, y, x2, y2)))"

text \<open>The result is the optional status string. The 0.1 s pause between the two taps of
  a double click is \<open>time.sleep\<close>, not a device call.\<close>

definition map_computer_action :: "dev_oracle \<Rightarrow> pydict \<Rightarrow> device \<Rightarrow> string option res \<times> device" where
  "map_computer_action ok action dev =
    (let atype = dget action ''type''; x = dget action ''x''; y = dget action ''y'' in
     if atype = PStr ''click'' then
       (if x = PNone \<or> y = PNone then (Inr (Some ''error: missing coordinates''), dev)
        else on_ok (py_int x) dev (\<lambda>xi. on_ok (py_int y) dev (\<lambda>yi.
             and_then (issue ok (Tap xi yi) dev) (\<lambda>_ dev1. (Inr (Some ''success''), dev1)))))
     else if atype = PStr ''double_click'' then
       (if x = PNone \<or> y = PNone then (Inr (Some ''error: missing coordinates''), dev)
        else on_ok (py_int x) dev (\<lambda>xi. on_ok (py_int y) dev (\<lambda>yi.
             and_then (issue ok (Tap xi yi) dev) (\<lambda>_ dev1.
             and_then (issue ok (Tap xi yi) dev1) (\<lambda>_ dev2. (Inr (Some ''success''), dev2))))))
     else if atype = PStr ''drag'' then
       (let x2 = dget action ''x2''; y2 = dget action ''y2'' in
        on_ok (py_int (dget_default action ''duration_ms'' (PInt 300))) dev (\<lambda>duration_ms.
          case (if x2 = PNone \<or> y2 = PNone then drag_path (dget action ''path'') (x, y, x2, y2)
                else (x, y, x2, y2)) of
            (sx, sy, ex, ey) \<Rightarrow>
              if sx = PNone \<or> sy = PNone \<or> ex = PNone \<or> ey = PNone
              then (Inr (Some ''error: missing drag coordinates''), dev)
              else on_ok (py_int sx) dev (\<lambda>sxi. on_ok (py_int sy) dev (\<lambda>syi.
                   on_ok (py_int ex) dev (\<lambda>exi. on_ok (py_int ey) dev (\<lambda>eyi.
                   and_then (issue ok (Swipe sxi syi exi eyi duration_ms) dev)
                     (\<lambda>_ dev1. (Inr (Some ''success''), dev1))))))))
     else if atype = PStr ''scroll'' then
       (let dx0 = dget action ''dx''; dy0 = dget action ''dy'';
            dx = (if dx0 = PNone then dget action ''scroll_x'' else dx0);
            dy = (if dy0 = PNone then dget action ''scroll_y'' else dy0) in
        on_ok (py_int (dget_default action ''duration_ms'' (PInt 300))) dev (\<lambda>duration_ms.
          if x = PNone \<or> y = PNone \<or> dx = PNone \<or> dy = PNone
          then (Inr (Some ''error: missing scroll parameters''), dev)
          else on_ok (py_int x) dev (\<lambda>xi. on_ok (py_int y) dev (\<lambda>yi.
               on_ok (py_int dx) dev (\<lambda>dxi. on_ok (py_int dy) dev (\<lambda>dyi.
               and_then (issue ok (Swipe xi yi (xi + dxi) (yi + dyi) duration_ms) dev)
                 (\<lambda>_ dev1. (Inr (Some ''success''), dev1))))))))
     else if atype = PStr ''type'' then
       and_then (issue ok (InputText (py_str (dget_default action ''text'' (PStr [])))) dev)
         (\<lambda>_ dev1. (Inr (Some ''success''), dev1))
     else if atype = PStr ''key'' then
       (let key = py_str (py_or (dget action ''key'') (py_or (dget action ''code'') (PStr []))) in
        if key = [] then (Inr (Some ''error: missing key''), dev)
        else and_then (issue ok (Keyevent key) dev) (\<lambda>_ dev1. (Inr (Some ''success''), dev1)))
     else if atype = PStr ''wait'' then
       and_then (issue ok (Wait (dget_default action ''seconds'' (PInt 1))) dev)
         (\<lambda>_ dev1. (Inr (Some ''success''), dev1))
     else if atype = PStr ''screenshot'' then (Inr (Some ''success''), dev)
     else (Inr None, dev))"

section \<open>Backend B: normalisation of Claude actions (llm/claude_provider.py)\<close>

text \<open>Iteration over a value, as tuple unpacking sees it: the elements of a list, the
  characters of a string, the keys of a dict; other values are not iterable.\<close>

definition py_iter :: "pyval \<Rightarrow> pyval list option" where
  "py_iter v = (case v of
      PList xs \<Rightarrow> Some xs
    | PStr s \<Rightarrow> Some (map (\<lambda>c. PStr [c]) s)
    | PDict d \<Rightarrow> Some (map (\<lambda>kv. PStr (fst kv)) d)
    | _ \<Rightarrow> None)"

text \<open>\<open>a, b = v\<close>.\<close>

definition unpack2 :: "pyval \<Rightarrow> (pyval \<times> pyval) res" where
  "unpack2 v = (case py_iter v of
      None \<Rightarrow> Inl TypeError
    | Some [a, b] \<Rightarrow> Inr (a, b)
    | Some _ \<Rightarrow> Inl ValueError)"

text \<open>\<open>a, b = v or (p, q)\<close>.\<close>

definition pair_or :: "pyval \<Rightarrow> pyval \<times> pyval \<Rightarrow> (pyval \<times> pyval) res" where
  "pair_or v dflt = (if py_truthy v then unpack2 v else Inr dflt)"

definition SCROLL_STEP :: int where
  "SCROLL_STEP = 100"

definition normalize_action :: "pydict \<Rightarrow> pydict res" where
  "normalize_action inp =
    (let action = dget_default inp ''action'' (PStr []); coord = dget inp ''coordinate'' in
     if action = PStr ''left_click'' \<or> action = PStr ''right_click'' \<or> action = PStr ''middle_click'' then
       (case pair_or coord (PInt 0, PInt 0) of
          Inl ex \<Rightarrow> Inl ex
        | Inr (x, y) \<Rightarrow> Inr [(''type'', PStr ''click''), (''x'', x), (''y'', y)])
     else if action = PStr ''double_click'' then
       (case pair_or coord (PInt 0, PInt 0) of
          Inl ex \<Rightarrow> Inl ex
        | Inr (x, y) \<Rightarrow> Inr [(''type'', PStr ''double_click''), (''x'', x), (''y'', y)])
     else if action = PStr ''type'' then
       Inr [(''type'', PStr ''type''), (''text'', dget_default inp ''text'' (PStr []))]
     else if action = PStr ''key'' then
       Inr [(''type'', PStr ''key''), (''key'', dget_default inp ''text'' (PStr []))]
     else if action = PStr ''scroll'' then
       (case pair_or coord (PInt 0, PInt 0) of
          Inl ex \<Rightarrow> Inl ex
        | Inr (x, y) \<Rightarrow>
           (let direction = dget_default inp ''scroll_direction'' (PStr ''down'') in
            case py_int (dget_default inp ''scroll_amount'' (PInt 3)) of
              Inl ex \<Rightarrow> Inl ex
            | Inr amount \<Rightarrow>
               (let scroll_x = (if direction = PStr ''down'' \<or> direction = PStr ''up'' then 0
                                else if direction = PStr ''right'' then amount * SCROLL_STEP
                                else if direction = PStr ''left'' then - (amount * SCROLL_STEP)
                                else 0);
                    scroll_y = (if direction = PStr ''down'' then amount * SCROLL_STEP
                                else if direction = PStr ''up'' then - (amount * SCROLL_STEP)
                                else 0)
                in Inr [(''type'', PStr ''scroll''), (''x'', x), (''y'', y),
                        (''scroll_x'', PInt scroll_x), (''scroll_y'', PInt scroll_y)])))
     else if action = PStr ''left_click_drag'' then
       (let start = dget inp ''start_coordinate'' in
        case pair_or (py_or start coord) (PInt 0, PInt 0) of
          Inl ex \<Rightarrow> Inl ex
        | Inr (sx, sy) \<Rightarrow>
           (case pair_or coord (PInt 0, PInt 0) of
              Inl ex \<Rightarrow> Inl ex
            | Inr e0 \<Rightarrow>
               (case (if py_truthy start then pair_or coord e0 else Inr e0) of
                  Inl ex \<Rightarrow> Inl ex
                | Inr (ex, ey) \<Rightarrow>
                    Inr [(''type'', PStr ''drag''), (''x'', sx), (''y'', sy), (''x2'', ex), (''y2'', ey)])))
     else if action = PStr ''screenshot'' then Inr [(''type'', PStr ''screenshot'')]
     else if action = PStr ''wait'' then Inr [(''type'', PStr ''wait'')]
     else Inr [(''type'', PStr ''screenshot'')])"

section \<open>The agent loop (agent_runner.py)\<close>

subsection \<open>Configuration\<close>




subsection \<open>Model output items and the environment\<close>

datatype LLMOutputType = REASONING | COMPUTER_ACTION | END_TEST

record LLMOutputItem =
  item_type :: LLMOutputType
  item_text :: "string option"
  item_action :: "pyval option"
  item_success :: "bool option"

text \<open>
  What the loop cannot compute: whether each device call returns, what the backend answers
  at each turn (\<open>None\<close>: \<open>create_turn\<close> raises), what the device reports as resolution and
  rotation at each turn (both indexed by the global turn index), whether the screen recorder
  starts, and the turn budget in force.
\<close>

record agent_env =
  device_ok :: dev_oracle
  create_turn :: "nat \<Rightarrow> LLMOutputItem list option"
  device_resolution :: "nat \<Rightarrow> int \<times> int"
  device_rotation :: "nat \<Rightarrow> int"
  recorder_starts :: bool
  max_agent_steps :: int

subsection \<open>Logs, events, results and the state of the loop\<close>

datatype log_entry =
    LogRecordingStarted
  | LogTurn nat nat nat
  | LogScreen int int int int int
  | LogReasoning string
  | LogAction pyval
  | LogRepeated
  | LogIgnoredEndTest
  | LogEndTest
  | LogSubstepFinished nat bool
  | LogExecuted nat nat nat
  | LogAborting nat
  | LogException pyexn

record click_event =
  ev_index :: nat
  ev_substep :: nat
  ev_cmd :: string
  ev_x :: int
  ev_y :: int
  ev_physical :: "int \<times> int"
  ev_rotation :: int
  ev_canvas :: "int \<times> int"
  ev_reason :: string

datatype web_event =
    WebClick click_event
  | WebEndTest nat nat string bool

record substep_result =
  res_index :: nat
  res_ok :: bool
  res_turns :: nat

record agent_state =
  dev_trace :: device
  step_logs :: "log_entry list"
  web_events :: "web_event list"
  substep_results :: "substep_result list"
  global_turn_index :: nat
  finished :: bool
  explicit_success :: "bool option"
  last_sig :: "string option"
  repeat_count :: nat
  turns_this_sub :: nat
  produced_texts :: "string list"
  last_reasoning_text :: string
  executed_any :: bool
  actions_this_turn :: nat
  last_click_xy :: "(int \<times> int) option"
  phy :: "int \<times> int"
  rotation :: int
  canvas :: "int \<times> int"

definition initial_state :: agent_state where
  "initial_state =
     \<lparr>dev_trace = [], step_logs = [], web_events = [], substep_results = [],
      global_turn_index = 0, finished = False, explicit_success = None, last_sig = None,
      repeat_count = 0, turns_this_sub = 0, produced_texts = [], last_reasoning_text = [],
      executed_any = False, actions_this_turn = 0, last_click_xy = None,
      phy = (0, 0), rotation = 0, canvas = (0, 0)\<rparr>"

definition log :: "log_entry \<Rightarrow> agent_state \<Rightarrow> agent_state" where
  "log m s = s\<lparr>step_logs := step_logs s @ [m]\<rparr>"

definition dev_step :: "agent_env \<Rightarrow> dev_call \<Rightarrow> agent_state \<Rightarrow> unit res \<times> agent_state" where
  "dev_step e c s = (case issue (device_ok e) c (dev_trace s) of (r, tr) \<Rightarrow> (r, s\<lparr>dev_trace := tr\<rparr>))"

subsection \<open>One output item\<close>

text \<open>\<open>last_reasoning_text or (produced_texts[-1] if produced_texts else default)\<close>.\<close>

definition reason_text :: "string \<Rightarrow> agent_state \<Rightarrow> string" where
  "reason_text dflt s =
     (if last_reasoning_text s \<noteq> [] then last_reasoning_text s
      else if produced_texts s \<noteq> [] then last (produced_texts s)
      else dflt)"

text \<open>The marker screenshot taken before a click or double click; a coordinate that does
  not convert to an int is caught and only clears \<open>last_click_xy\<close>.\<close>

definition preclick_marker :: "nat \<Rightarrow> pyval \<Rightarrow> agent_state \<Rightarrow> agent_state" where
  "preclick_marker sub_idx action s =
     (case action of
        PDict d \<Rightarrow>
          if (dget d ''type'' = PStr ''click'' \<or> dget d ''type'' = PStr ''double_click'')
             \<and> has_key d ''x'' \<and> has_key d ''y'' then
            (case py_int (dget d ''x'') of
               Inl ex \<Rightarrow> s\<lparr>last_click_xy := None\<rparr>
             | Inr cx \<Rightarrow>
                (case py_int (dget d ''y'') of
                   Inl ex \<Rightarrow> s\<lparr>last_click_xy := None\<rparr>
                 | Inr cy \<Rightarrow>
                     s\<lparr>last_click_xy := Some (cx, cy),
                       dev_trace := dev_trace s @ [ScreenshotWithMarker (PreclickMarked (global_turn_index s)) cx cy],
                       web_events := web_events s @
                         [WebClick \<lparr>ev_index = global_turn_index s, ev_substep = sub_idx,
                                    ev_cmd = py_str (dget d ''type''), ev_x = cx, ev_y = cy,
                                    ev_physical = phy s, ev_rotation = rotation s, ev_canvas = canvas s,
                                    ev_reason = reason_text ''No reasoning from model'' s\<rparr>]\<rparr>))
          else s
      | _ \<Rightarrow> s)"

text \<open>\<open>map_computer_action(device, action if isinstance(action, dict) else {})\<close>; the status
  string is dropped by the loop.\<close>

definition run_action :: "agent_env \<Rightarrow> pyval \<Rightarrow> agent_state \<Rightarrow> unit res \<times> agent_state" where
  "run_action e action s =
     (case map_computer_action (device_ok e) (case action of PDict d \<Rightarrow> d | _ \<Rightarrow> []) (dev_trace s) of
        (Inl ex, tr) \<Rightarrow> (Inl ex, s\<lparr>dev_trace := tr\<rparr>)
      | (Inr status, tr) \<Rightarrow> (Inr (), s\<lparr>dev_trace := tr\<rparr>))"

text \<open>The \<open>COMPUTER_ACTION\<close> branch, in the order of the source: \<open>action = output_item.action or {}\<close>;
  the signature is compared with the last one and the repeat counter updated; at ten repeats
  BACK is sent instead of the action; otherwise the marker, the action and the settle delay.\<close>

definition action_or_empty :: "pyval option \<Rightarrow> pyval" where
  "action_or_empty act = (case act of None \<Rightarrow> PDict [] | Some a \<Rightarrow> py_or a (PDict []))"

definition track_repeat :: "pyval \<Rightarrow> agent_state \<Rightarrow> agent_state" where
  "track_repeat action s =
     (let sig = json_dumps action
      in if Some sig = last_sig s then s\<lparr>repeat_count := repeat_count s + 1\<rparr>
         else s\<lparr>repeat_count := 0, last_sig := Some sig\<rparr>)"

definition escape_repeat :: "agent_env \<Rightarrow> agent_state \<Rightarrow> unit res \<times> agent_state" where
  "escape_repeat e s =
     and_then (dev_step e (Keyevent ''4'') (log LogRepeated s)) (\<lambda>_ s1.
     and_then (dev_step e Settle s1) (\<lambda>_ s2.
     (Inr (), s2\<lparr>repeat_count := 0\<rparr>)))"

definition execute_action :: "agent_env \<Rightarrow> nat \<Rightarrow> pyval \<Rightarrow> agent_state \<Rightarrow> unit res \<times> agent_state" where
  "execute_action e sub_idx action s =
     and_then (run_action e action (preclick_marker sub_idx action s)) (\<lambda>_ s1.
     dev_step e Settle (s1\<lparr>actions_this_turn := actions_this_turn s1 + 1, executed_any := True\<rparr>))"

definition process_action :: "agent_env \<Rightarrow> nat \<Rightarrow> pyval option \<Rightarrow> agent_state \<Rightarrow> unit res \<times> agent_state" where
  "process_action e sub_idx act s0 =
     (let action = action_or_empty act;
          s1 = track_repeat action (log (LogAction action) s0)
      in if 10 \<le> repeat_count s1 then escape_repeat e s1
         else execute_action e sub_idx action s1)"

text \<open>\<open>END_TEST\<close> with a true \<open>success\<close>: the final screenshot is best effort.\<close>

definition finish_end_test :: "agent_env \<Rightarrow> nat \<Rightarrow> agent_state \<Rightarrow> agent_state" where
  "finish_end_test e sub_idx s =
     (let s1 = s\<lparr>finished := True, explicit_success := Some True\<rparr>;
          reason = reason_text ''Model invoked end_test'' s1
      in case issue (device_ok e) (Screenshot (EndTestFile (global_turn_index s1))) (dev_trace s1) of
           (r, tr) \<Rightarrow>
             log LogEndTest
               (s1\<lparr>dev_trace := tr,
                   web_events := web_events s1 @
                     [WebEndTest (global_turn_index s1) sub_idx reason (case r of Inl ex \<Rightarrow> False | Inr u \<Rightarrow> True)]\<rparr>))"

subsection \<open>The items of one turn, in order\<close>

fun process_items :: "agent_env \<Rightarrow> nat \<Rightarrow> LLMOutputItem list \<Rightarrow> agent_state \<Rightarrow> unit res \<times> agent_state" where
  "process_items e sub_idx [] s = (Inr (), s)"
| "process_items e sub_idx (it # its) s =
     (case item_type it of
        REASONING \<Rightarrow>
          (let txt = (case item_text it of None \<Rightarrow> [] | Some t \<Rightarrow> t);
               s1 = s\<lparr>produced_texts := produced_texts s @ [txt]\<rparr>;
               s2 = (if txt \<noteq> [] then log (LogReasoning txt) (s1\<lparr>last_reasoning_text := txt\<rparr>) else s1)
           in process_items e sub_idx its s2)
      | COMPUTER_ACTION \<Rightarrow>
          (case process_action e sub_idx (item_action it) s of
             (Inl ex, s1) \<Rightarrow> (Inl ex, s1)
           | (Inr u, s1) \<Rightarrow> process_items e sub_idx its s1)
      | END_TEST \<Rightarrow>
          if item_success it \<noteq> Some True
          then process_items e sub_idx its (log LogIgnoredEndTest s)
          else (Inr (), finish_end_test e sub_idx s))"

subsection \<open>One turn, the turns of a sub-goal, the sub-goals\<close>

text \<open>The head of the loop body: both counters advance, the screen is read and the canvas
  computed.\<close>

definition begin_turn :: "agent_env \<Rightarrow> nat \<Rightarrow> agent_state \<Rightarrow> agent_state" where
  "begin_turn e sub_idx s0 =
     (let s1 = s0\<lparr>turns_this_sub := turns_this_sub s0 + 1, global_turn_index := global_turn_index s0 + 1\<rparr>;
          s2 = log (LogTurn sub_idx (turns_this_sub s1) (global_turn_index s1)) s1;
          p = device_resolution e (global_turn_index s2);
          r = device_rotation e (global_turn_index s2);
          c = canvas_dims (fst p) (snd p) r
      in log (LogScreen (fst p) (snd p) r (fst c) (snd c)) (s2\<lparr>phy := p, rotation := r, canvas := c\<rparr>))"

definition reset_turn_locals :: "agent_state \<Rightarrow> agent_state" where
  "reset_turn_locals s =
     s\<lparr>produced_texts := [], last_reasoning_text := [], executed_any := False,
       actions_this_turn := 0, last_click_xy := None\<rparr>"

text \<open>The tail of the loop body: a finished sub-goal is logged; otherwise a fresh screenshot
  is taken for the next user message.\<close>

definition end_turn :: "agent_env \<Rightarrow> nat \<Rightarrow> agent_state \<Rightarrow> unit res \<times> agent_state" where
  "end_turn e sub_idx s =
     (if finished s then
        (Inr (), (case explicit_success s of
                    Some b \<Rightarrow> log (LogSubstepFinished sub_idx b) s
                  | None \<Rightarrow> s))
      else
        and_then (dev_step e (Screenshot TempFile) s) (\<lambda>_ s1.
          (Inr (), log (LogExecuted sub_idx (turns_this_sub s1) (actions_this_turn s1)) s1)))"

definition run_turn :: "agent_env \<Rightarrow> nat \<Rightarrow> agent_state \<Rightarrow> unit res \<times> agent_state" where
  "run_turn e sub_idx s0 =
     (let s1 = begin_turn e sub_idx s0
      in case create_turn e (global_turn_index s1) of
           None \<Rightarrow> (Inl ProviderFailure, s1)
         | Some items \<Rightarrow>
            (case process_items e sub_idx items (reset_turn_locals s1) of
               (Inl ex, s2) \<Rightarrow> (Inl ex, s2)
             | (Inr u, s2) \<Rightarrow> end_turn e sub_idx s2))"

subsection \<open>What a turn leaves unchanged\<close>

text \<open>The sub-goal indices of the turns logged so far, in the order the turns ran.\<close>

fun turn_subs :: "log_entry list \<Rightarrow> nat list" where
  "turn_subs [] = []"
| "turn_subs (LogTurn j t g # ls) = j # turn_subs ls"
| "turn_subs (m # ls) = turn_subs ls"

lemma turn_subs_append [simp]: "turn_subs (xs @ ys) = turn_subs xs @ turn_subs ys"
  by (induction xs rule: turn_subs.induct) auto

text \<open>Two states agree on the counters, the sub-goal results and the turns logged.\<close>

definition same_sub :: "agent_state \<Rightarrow> agent_state \<Rightarrow> bool" where
  "same_sub s s' = (turns_this_sub s' = turns_this_sub s \<and> global_turn_index s' = global_turn_index s
     \<and> substep_results s' = substep_results s \<and> turn_subs (step_logs s') = turn_subs (step_logs s))"

lemma same_sub_refl [simp]: "same_sub s s"
  by (simp add: same_sub_def)

lemma same_sub_trans: "same_sub s s1 \<Longrightarrow> same_sub s1 s2 \<Longrightarrow> same_sub s s2"
  by (simp add: same_sub_def)

lemma same_sub_log: "\<forall>j t g. m \<noteq> LogTurn j t g \<Longrightarrow> same_sub s (log m s)"
  by (cases m) (auto simp: same_sub_def log_def)

lemma same_sub_dev_step: "dev_step e c s = (r, s') \<Longrightarrow> same_sub s s'"
  by (auto simp: dev_step_def same_sub_def split: prod.splits)

lemma same_sub_preclick: "same_sub s (preclick_marker i a s)"
  by (auto simp: preclick_marker_def same_sub_def split: pyval.splits sum.splits)

lemma same_sub_run_action: "run_action e a s = (r, s') \<Longrightarrow> same_sub s s'"
  by (auto simp: run_action_def same_sub_def split: prod.splits sum.splits)

lemma same_sub_and_then:
  assumes "and_then m f = (r, s')"
    and "\<And>r1 s1. m = (r1, s1) \<Longrightarrow> same_sub s s1"
    and "\<And>v s1 r2 s2. f v s1 = (r2, s2) \<Longrightarrow> same_sub s1 s2"
  shows "same_sub s s'"
  using assms by (auto simp: and_then_def split: prod.splits sum.splits intro: same_sub_trans)

lemma same_sub_track: "same_sub s (track_repeat a s)"
  by (simp add: track_repeat_def Let_def same_sub_def)

lemma same_sub_escape: "escape_repeat e s = (r, s') \<Longrightarrow> same_sub s s'"
  unfolding escape_repeat_def
  apply (erule same_sub_and_then)
   apply (rule same_sub_trans [of _ "log LogRepeated s"])
    apply (rule same_sub_log) apply simp
   apply (erule same_sub_dev_step)
  apply (erule same_sub_and_then)
   apply (erule same_sub_dev_step)
  apply (auto simp: same_sub_def)
  done

lemma same_sub_execute: "execute_action e i a s = (r, s') \<Longrightarrow> same_sub s s'"
  unfolding execute_action_def
  apply (erule same_sub_and_then)
   apply (rule same_sub_trans [OF same_sub_preclick])
   apply (erule same_sub_run_action)
  apply (drule same_sub_dev_step)
  apply (auto simp: same_sub_def)
  done

lemma same_sub_process_action: "process_action e i a s = (r, s') \<Longrightarrow> same_sub s s'"
  unfolding process_action_def Let_def
  apply (rule same_sub_trans [OF same_sub_log [where m = "LogAction (action_or_empty a)"]])
   apply simp
  apply (rule same_sub_trans [OF same_sub_track [where a = "action_or_empty a"]])
  apply (auto split: if_splits dest: same_sub_escape same_sub_execute)
  done

lemma same_sub_finish: "same_sub s (finish_end_test e i s)"
  by (auto simp: finish_end_test_def Let_def same_sub_def log_def split: prod.splits)

lemma same_sub_process_items: "process_items e i its s = (r, s') \<Longrightarrow> same_sub s s'"
proof (induction its arbitrary: s)
  case Nil
  then show ?case by simp
next
  case (Cons it its)
  show ?case
  proof (cases "item_type it")
    case REASONING
    with Cons.prems have "process_items e i its
       (let txt = (case item_text it of None \<Rightarrow> [] | Some t \<Rightarrow> t);
               s1 = s\<lparr>produced_texts := produced_texts s @ [txt]\<rparr>
         in (if txt \<noteq> [] then log (LogReasoning txt) (s1\<lparr>last_reasoning_text := txt\<rparr>) else s1)) = (r, s')"
      by (simp add: Let_def)
    from Cons.IH [OF this] show ?thesis
      by (auto simp: same_sub_def Let_def log_def split: if_splits)
  next
    case COMPUTER_ACTION
    with Cons.prems show ?thesis
      by (auto split: prod.splits sum.splits dest: same_sub_process_action Cons.IH intro: same_sub_trans)
  next
    case END_TEST
    with Cons.prems show ?thesis
      using same_sub_finish [of s e i] same_sub_log [of LogIgnoredEndTest s]
      by (auto split: if_splits dest!: Cons.IH intro: same_sub_trans)
  qed
qed

lemma begin_turn_counts:
  "turns_this_sub (begin_turn e i s) = turns_this_sub s + 1"
  "global_turn_index (begin_turn e i s) = global_turn_index s + 1"
  "substep_results (begin_turn e i s) = substep_results s"
  "turn_subs (step_logs (begin_turn e i s)) = turn_subs (step_logs s) @ [i]"
  by (simp_all add: begin_turn_def Let_def log_def)

lemma same_sub_reset: "same_sub s (reset_turn_locals s)"
  by (simp add: reset_turn_locals_def same_sub_def)

lemma same_sub_end_turn: "end_turn e i s = (r, s') \<Longrightarrow> same_sub s s'"
  unfolding end_turn_def
  apply (cases "finished s")
   apply (auto simp: same_sub_def log_def split: option.splits)[1]
  apply simp
  apply (erule same_sub_and_then)
   apply (erule same_sub_dev_step)
  apply (auto simp: same_sub_def log_def)
  done

lemma run_turn_same_sub: "run_turn e i s = (r, s') \<Longrightarrow> same_sub (begin_turn e i s) s'"
  unfolding run_turn_def Let_def
  by (auto split: option.splits prod.splits sum.splits
      dest!: same_sub_process_items same_sub_end_turn
      intro: same_sub_trans [OF same_sub_reset] same_sub_trans)

lemma run_turn_counts:
  assumes "run_turn e i s = (r, s')"
  shows "turns_this_sub s' = turns_this_sub s + 1"
    and "global_turn_index s' = global_turn_index s + 1"
    and "substep_results s' = substep_results s"
    and "turn_subs (step_logs s') = turn_subs (step_logs s) @ [i]"
  using run_turn_same_sub [OF assms] by (simp_all add: same_sub_def begin_turn_counts)

subsection \<open>The turns of a sub-goal\<close>

text \<open>\<open>while turns_this_sub < MAX_AGENT_STEPS and not finished\<close>; an exception leaves the loop.\<close>

function turn_loop :: "agent_env \<Rightarrow> nat \<Rightarrow> agent_state \<Rightarrow> unit res \<times> agent_state" where
  "turn_loop e sub_idx s =
     (if int (turns_this_sub s) < max_agent_steps e \<and> \<not> finished s then
        (case run_turn e sub_idx s of
           (Inl ex, s1) \<Rightarrow> (Inl ex, s1)
         | (Inr u, s1) \<Rightarrow> turn_loop e sub_idx s1)
      else (Inr (), s))"
  by pat_completeness auto
termination
proof (relation "measure (\<lambda>(e, sub_idx, s). nat (max_agent_steps e - int (turns_this_sub s)))", goal_cases)
  case 1
  show ?case by simp
next
  case (2 e sub_idx s x y b)
  then have "run_turn e sub_idx s = (Inr b, y)" by simp
  then have "turns_this_sub y = turns_this_sub s + 1" by (rule run_turn_counts)
  with 2 show ?case by simp
qed

declare turn_loop.simps [simp del]

subsection \<open>One sub-goal, the sub-goals in order, the run\<close>

text \<open>
  A sub-goal starts with the initial screenshot (which may raise) and fresh per-sub-goal
  trackers; its texts are read with \<open>sub.get\<close>, which only a dict has. After the turns,
  \<open>sub_ok = bool(explicit_success) if explicit_success is not None else False\<close> is recorded
  with the turn count. The result of the function is \<open>sub_ok\<close>.
\<close>

definition run_substep :: "agent_env \<Rightarrow> nat \<Rightarrow> pyval \<Rightarrow> agent_state \<Rightarrow> bool res \<times> agent_state" where
  "run_substep e sub_idx sub s0 =
     (case sub of
        PDict d \<Rightarrow>
          and_then (dev_step e (Screenshot TempFile) s0) (\<lambda>_ s1.
          and_then (turn_loop e sub_idx
                      (s1\<lparr>finished := False, explicit_success := None, last_sig := None,
                          repeat_count := 0, turns_this_sub := 0\<rparr>)) (\<lambda>_ s2.
            let sub_ok = (case explicit_success s2 of Some b \<Rightarrow> b | None \<Rightarrow> False);
                s3 = s2\<lparr>substep_results := substep_results s2 @
                          [\<lparr>res_index = sub_idx, res_ok = sub_ok, res_turns = turns_this_sub s2\<rparr>]\<rparr>
            in (Inr sub_ok, if sub_ok then s3 else log (LogAborting sub_idx) s3)))
      | _ \<Rightarrow> (Inl AttributeError, s0))"

text \<open>\<open>for sub_idx, sub in enumerate(steps_spec, start=1)\<close>, with the \<open>break\<close> after a
  sub-goal that is not ok.\<close>

fun run_substeps :: "agent_env \<Rightarrow> nat \<Rightarrow> pyval list \<Rightarrow> agent_state \<Rightarrow> unit res \<times> agent_state" where
  "run_substeps e sub_idx [] s = (Inr (), s)"
| "run_substeps e sub_idx (sub # subs) s =
     (case run_substep e sub_idx sub s of
        (Inl ex, s1) \<Rightarrow> (Inl ex, s1)
      | (Inr sub_ok, s1) \<Rightarrow>
          if sub_ok then run_substeps e (Suc sub_idx) subs s1 else (Inr (), s1))"

text \<open>The sub-goals of a specification: the \<open>steps\<close> array when it is a non-empty list whose
  first element is a dict with a \<open>goal\<close>, else one sub-goal made of the top-level texts.\<close>

definition implicit_step :: "pydict \<Rightarrow> pyval" where
  "implicit_step spec =
     PDict [(''goal'', PStr (py_strip (py_str (dget_default spec ''goal'' (PStr []))))),
            (''suggestions'', PStr (py_strip (py_str (py_or (dget_default spec ''suggestions'' (PStr [])) (PStr []))))),
            (''negative_prompt'', PStr (py_strip (py_str (py_or (dget_default spec ''negative_prompt'' (PStr [])) (PStr []))))),
            (''success_criteria'', PStr (py_strip (py_str (py_or (dget_default spec ''success_criteria'' (PStr [])) (PStr [])))))]"

definition steps_spec_of :: "pydict \<Rightarrow> pyval list" where
  "steps_spec_of spec =
     (case dget spec ''steps'' of
        PList (PDict d # rest) \<Rightarrow> if has_key d ''goal'' then PDict d # rest else [implicit_step spec]
      | _ \<Rightarrow> [implicit_step spec])"

text \<open>The summary of a run: \<open>ok\<close>, \<open>errors\<close>, \<open>executed\<close> and, when no exception was caught,
  \<open>substeps\<close>.\<close>

record summary =
  sum_ok :: bool
  sum_errors :: "pyexn list"
  sum_executed :: nat
  sum_substeps :: "substep_result list option"

text \<open>The \<open>try\<close> block of \<open>run_agent\<close> with its \<open>except\<close> clause: the recorder starts, the
  sub-goals run, the summary is filled; an exception is recorded and the run is not ok.\<close>

definition agent_loop :: "agent_env \<Rightarrow> pyval list \<Rightarrow> summary \<times> agent_state" where
  "agent_loop e steps_spec =
     (if \<not> recorder_starts e then
        (\<lparr>sum_ok = False, sum_errors = [RecorderFailure], sum_executed = 0, sum_substeps = None\<rparr>,
         log (LogException RecorderFailure) initial_state)
      else
        (case run_substeps e 1 steps_spec (log LogRecordingStarted initial_state) of
           (Inl ex, s) \<Rightarrow>
             (\<lparr>sum_ok = False, sum_errors = [ex], sum_executed = 0, sum_substeps = None\<rparr>,
              log (LogException ex) s)
         | (Inr u, s) \<Rightarrow>
             (\<lparr>sum_ok = (substep_results s \<noteq> [] \<and> list_all res_ok (substep_results s)),
               sum_errors = [], sum_executed = global_turn_index s,
               sum_substeps = Some (substep_results s)\<rparr>, s)))"

definition run_agent_loop :: "agent_env \<Rightarrow> pydict \<Rightarrow> summary \<times> agent_state" where
  "run_agent_loop e spec = agent_loop e (steps_spec_of spec)"

text \<open>\<open>return 0 if summary["ok"] else 1\<close>.\<close>

definition exit_status :: "summary \<Rightarrow> int" where
  "exit_status sm = (if sum_ok sm then 0 else 1)"

section \<open>The text sanitizer\<close>

lemma safe_char_space: "\<not> safe_char (CHR '' '')"
  by (simp add: safe_char_def char_code_def)

lemma safe_char_percent_s: "safe_char (CHR ''%'') \<and> safe_char (CHR ''s'') \<and> safe_char (CHR ''_'')"
  by (simp add: safe_char_def char_code_def)

lemma sanitize_single_pass:
  "sanitize_text_for_adb_input t =
     concat (map (\<lambda>c. if c = CHR '' '' then ''%s'' else if safe_char c then [c] else ''_'') t)"
  using safe_char_percent_s
  by (induction t) (simp_all add: sanitize_text_for_adb_input_def sub_unsafe_def replace_spaces_def)

lemma sanitize_all_safe: "c \<in> set (sanitize_text_for_adb_input t) \<Longrightarrow> safe_char c"
  using safe_char_percent_s
  by (auto simp: sanitize_text_for_adb_input_def sub_unsafe_def)

text \<open>
  Claim C8. For every input string the sanitizer's output is the input with every space
  turned into the escape token \<open>%s\<close> and every other character outside the allow-list
  (letters, digits and \<open>_%@.,:-\<close>) turned into the placeholder \<open>_\<close>; the output holds
  allow-list characters only, so a text with a character outside the allow-list never comes
  out unmodified. \<open>AndroidDevice.input_text\<close> hands adb the sanitized text.
\<close>

theorem sanitize_text_safe_encoding:
  "sanitize_text_for_adb_input t =
     concat (map (\<lambda>c. if c = CHR '' '' then ''%s'' else if safe_char c then [c] else ''_'') t)
   \<and> (\<forall>c \<in> set (sanitize_text_for_adb_input t). safe_char c)
   \<and> ((\<exists>c \<in> set t. \<not> safe_char c) \<longrightarrow> sanitize_text_for_adb_input t \<noteq> t)
   \<and> input_text_argv t = [''shell'', ''input'', ''text'', sanitize_text_for_adb_input t]"
proof (intro conjI)
  show "sanitize_text_for_adb_input t =
     concat (map (\<lambda>c. if c = CHR '' '' then ''%s'' else if safe_char c then [c] else ''_'') t)"
    by (rule sanitize_single_pass)
  show "\<forall>c \<in> set (sanitize_text_for_adb_input t). safe_char c"
    using sanitize_all_safe by blast
  show "(\<exists>c \<in> set t. \<not> safe_char c) \<longrightarrow> sanitize_text_for_adb_input t \<noteq> t"
    using sanitize_all_safe by metis
  show "input_text_argv t = [''shell'', ''input'', ''text'', sanitize_text_for_adb_input t]"
    by (simp add: input_text_argv_def)
qed

theorem sanitize_text_safe_encoding_witness:
  "sanitize_text_for_adb_input ''a b!'' = ''a%sb_''
   \<and> list_all safe_char (sanitize_text_for_adb_input ''a b!'')
   \<and> list_ex (\<lambda>c. \<not> safe_char c) ''a b!''
   \<and> sanitize_text_for_adb_input ''a b!'' \<noteq> ''a b!''"
  using sanitize_text_safe_encoding [of "''a b!''"]
  by (simp add: safe_char_def char_code_def list_all_iff)

section \<open>The canvas dimensions\<close>

text \<open>
  Claim C9. The canvas dimensions are a function of the physical width, the physical height
  and the rotation alone: rotations 90 and 270 give the swapped pair, rotations 0 and 180
  the unswapped pair; the properties of \<open>ScreenInfo\<close> compute the same pair, and the canvas
  of a turn is that function of what the device reports at the turn.
\<close>

theorem canvas_dims_rotation:
  "canvas_dims w h 90 = (h, w) \<and> canvas_dims w h 270 = (h, w)
   \<and> canvas_dims w h 0 = (w, h) \<and> canvas_dims w h 180 = (w, h)
   \<and> (canvas_width \<lparr>physical_width = w, physical_height = h, rotation_deg = r\<rparr>,
       canvas_height \<lparr>physical_width = w, physical_height = h, rotation_deg = r\<rparr>) = canvas_dims w h r
   \<and> canvas (begin_turn e i s) =
       canvas_dims (fst (device_resolution e (global_turn_index s + 1)))
                   (snd (device_resolution e (global_turn_index s + 1)))
                   (device_rotation e (global_turn_index s + 1))"
  by (simp add: canvas_dims_def canvas_width_def canvas_height_def begin_turn_def Let_def log_def)

section \<open>Deterministic commands\<close>

text \<open>The commands \<open>execute_command\<close> recognises.\<close>

definition known_cmds :: "string list" where
  "known_cmds = [''wait'', ''tap'', ''swipe'', ''input_text'', ''keyevent'', ''back'', ''home'',
                 ''screenshot'', ''launch'', ''stop'']"

lemma issue_not_unknown: "fst (issue ok c dev) \<noteq> Inl (UnknownCommand v)"
  by (simp add: issue_def)

lemma on_ok_not_unknown:
  "r \<noteq> Inl (UnknownCommand v) \<Longrightarrow> (\<And>x. fst (f x) \<noteq> Inl (UnknownCommand v)) \<Longrightarrow>
   fst (on_ok r dev f) \<noteq> Inl (UnknownCommand v)"
  by (cases r) (auto simp: on_ok_def)

lemma dindex_not_unknown: "dindex d k \<noteq> Inl (UnknownCommand v)"
  by (simp add: dindex_def split: option.splits)

lemma int_of_str_not_unknown: "int_of_str s \<noteq> Inl (UnknownCommand v)"
  by (auto simp: int_of_str_def Let_def split: list.splits option.splits)

lemma py_int_not_unknown: "py_int x \<noteq> Inl (UnknownCommand v)"
  by (cases x) (simp_all add: int_of_str_not_unknown)

lemma execute_command_unknown:
  assumes "fst (execute_command ok step package dev) = Inl (UnknownCommand v)"
  shows "map_of step ''cmd'' = Some v \<and> py_truthy v \<and> v \<notin> PStr ` set known_cmds"
proof -
  let ?cmd = "dget step ''cmd''"
  have t: "py_truthy ?cmd"
  proof (rule ccontr)
    assume "\<not> py_truthy ?cmd"
    then have "execute_command ok step package dev = (Inr (), dev)"
      by (simp add: execute_command_def Let_def)
    with assms show False by simp
  qed
  note nu = issue_not_unknown on_ok_not_unknown dindex_not_unknown py_int_not_unknown
  have k: "?cmd \<notin> PStr ` set known_cmds"
  proof
    assume "?cmd \<in> PStr ` set known_cmds"
    then consider "?cmd = PStr ''wait''" | "?cmd = PStr ''tap''" | "?cmd = PStr ''swipe''"
      | "?cmd = PStr ''input_text''" | "?cmd = PStr ''keyevent''" | "?cmd = PStr ''back''"
      | "?cmd = PStr ''home''" | "?cmd = PStr ''screenshot''" | "?cmd = PStr ''launch''"
      | "?cmd = PStr ''stop''"
      by (auto simp: known_cmds_def)
    then have "fst (execute_command ok step package dev) \<noteq> Inl (UnknownCommand v)"
    proof cases
      case 1 then show ?thesis by (simp add: execute_command_def Let_def nu)
    next
      case 2 then show ?thesis by (simp add: execute_command_def Let_def nu)
    next
      case 3 then show ?thesis by (simp add: execute_command_def Let_def nu)
    next
      case 4 then show ?thesis by (simp add: execute_command_def Let_def nu)
    next
      case 5 then show ?thesis by (simp add: execute_command_def Let_def nu)
    next
      case 6 then show ?thesis by (simp add: execute_command_def Let_def nu)
    next
      case 7 then show ?thesis by (simp add: execute_command_def Let_def nu)
    next
      case 8 then show ?thesis
        by (auto simp: execute_command_def Let_def on_ok_def dindex_def issue_def split: option.splits pyval.splits)
    next
      case 9 then show ?thesis by (simp add: execute_command_def Let_def nu)
    next
      case 10 then show ?thesis by (simp add: execute_command_def Let_def nu)
    qed
    with assms show False by simp
  qed
  have "fst (execute_command ok step package dev) = Inl (UnknownCommand ?cmd)"
    using t k by (auto simp: execute_command_def Let_def known_cmds_def)
  with assms have "v = ?cmd" by simp
  moreover from t have "map_of step ''cmd'' = Some ?cmd"
    by (auto simp: dget_def dget_default_def split: option.splits)
  ultimately show ?thesis using t k by simp
qed

text \<open>
  Claim C10. A command dict whose \<open>cmd\<close> is absent, \<open>None\<close> or the empty string makes
  \<open>execute_command\<close> return at once, with no device call and no exception; the
  unknown-command error is raised only for a \<open>cmd\<close> that is present, not \<open>None\<close>, not empty
  and not one of the recognised commands, and every present, truthy, unrecognised \<open>cmd\<close>
  raises it before any device call.
\<close>

theorem execute_command_empty_cmd:
  "(map_of step ''cmd'' = None \<or> map_of step ''cmd'' = Some PNone \<or> map_of step ''cmd'' = Some (PStr [])
      \<longrightarrow> execute_command ok step package dev = (Inr (), dev))
   \<and> (fst (execute_command ok step package dev) = Inl (UnknownCommand v)
      \<longrightarrow> map_of step ''cmd'' = Some v \<and> v \<noteq> PNone \<and> v \<noteq> PStr [] \<and> v \<notin> PStr ` set known_cmds)
   \<and> (map_of step ''cmd'' = Some v \<and> py_truthy v \<and> v \<notin> PStr ` set known_cmds
      \<longrightarrow> execute_command ok step package dev = (Inl (UnknownCommand v), dev))"
proof (intro conjI impI)
  assume "map_of step ''cmd'' = None \<or> map_of step ''cmd'' = Some PNone \<or> map_of step ''cmd'' = Some (PStr [])"
  then show "execute_command ok step package dev = (Inr (), dev)"
    by (auto simp: execute_command_def Let_def dget_def dget_default_def)
next
  assume a: "fst (execute_command ok step package dev) = Inl (UnknownCommand v)"
  from execute_command_unknown [OF a]
  show "map_of step ''cmd'' = Some v" "v \<noteq> PNone" "v \<noteq> PStr []" "v \<notin> PStr ` set known_cmds"
    by auto
next
  assume "map_of step ''cmd'' = Some v \<and> py_truthy v \<and> v \<notin> PStr ` set known_cmds"
  then show "execute_command ok step package dev = (Inl (UnknownCommand v), dev)"
    by (auto simp: execute_command_def Let_def dget_def dget_default_def known_cmds_def)
qed

theorem execute_command_empty_cmd_witness:
  "execute_command (\<lambda>n c. True) [(''x'', PInt 1)] ''pkg'' [] = (Inr (), [])
   \<and> execute_command (\<lambda>n c. True) [(''cmd'', PNone)] ''pkg'' [] = (Inr (), [])
   \<and> execute_command (\<lambda>n c. True) [(''cmd'', PStr [])] ''pkg'' [] = (Inr (), [])
   \<and> execute_command (\<lambda>n c. True) [(''cmd'', PStr ''fly'')] ''pkg'' [] = (Inl (UnknownCommand (PStr ''fly'')), [])
   \<and> PStr ''fly'' \<notin> PStr ` set known_cmds"
  using execute_command_empty_cmd [of "[(''x'', PInt 1)]" "\<lambda>n c. True" "''pkg''" "[]" "PStr ''fly''"]
    execute_command_empty_cmd [of "[(''cmd'', PNone)]" "\<lambda>n c. True" "''pkg''" "[]" "PStr ''fly''"]
    execute_command_empty_cmd [of "[(''cmd'', PStr [])]" "\<lambda>n c. True" "''pkg''" "[]" "PStr ''fly''"]
    execute_command_empty_cmd [of "[(''cmd'', PStr ''fly'')]" "\<lambda>n c. True" "''pkg''" "[]" "PStr ''fly''"]
  by (simp add: known_cmds_def)

section \<open>The action executor\<close>

text \<open>A device on which every call returns.\<close>

definition always_ok :: dev_oracle where
  "always_ok n c = True"

text \<open>The error statuses of \<open>map_computer_action\<close> are the strings that start with \<open>error:\<close>.\<close>

definition is_error_status :: "string \<Rightarrow> bool" where
  "is_error_status msg = (take 6 msg = ''error:'')"

subsection \<open>Missing required fields\<close>

text \<open>\<open>int(v)\<close> returns.\<close>

definition converts :: "pyval \<Rightarrow> bool" where
  "converts v = (case py_int v of Inl ex \<Rightarrow> False | Inr n \<Rightarrow> True)"

text \<open>A path gives the end of a drag when it is a list of at least two points whose last
  point is a dict with an \<open>x\<close> and a \<open>y\<close>.\<close>

definition path_end_given :: "pyval \<Rightarrow> bool" where
  "path_end_given path =
     (case path of
        PList ps \<Rightarrow> 2 \<le> length ps \<and>
          (case last ps of PDict d \<Rightarrow> dget d ''x'' \<noteq> PNone \<and> dget d ''y'' \<noteq> PNone | _ \<Rightarrow> False)
      | _ \<Rightarrow> False)"

text \<open>An action lacks its required fields: a click or double click without \<open>x\<close> or \<open>y\<close>; a
  drag without \<open>x2\<close> or \<open>y2\<close> and without a path that gives the end; a scroll without a point
  or without one of its deltas (\<open>dx\<close> or \<open>scroll_x\<close>, \<open>dy\<close> or \<open>scroll_y\<close>); a key without
  a key code (\<open>key\<close> and \<open>code\<close> both absent, \<open>None\<close> or empty).\<close>

definition lacks_required :: "pydict \<Rightarrow> bool" where
  "lacks_required a =
     (let t = dget a ''type'' in
      ((t = PStr ''click'' \<or> t = PStr ''double_click'') \<and> (dget a ''x'' = PNone \<or> dget a ''y'' = PNone))
      \<or> (t = PStr ''drag'' \<and> (dget a ''x2'' = PNone \<or> dget a ''y2'' = PNone) \<and> \<not> path_end_given (dget a ''path''))
      \<or> (t = PStr ''scroll'' \<and>
            (dget a ''x'' = PNone \<or> dget a ''y'' = PNone
             \<or> (dget a ''dx'' = PNone \<and> dget a ''scroll_x'' = PNone)
             \<or> (dget a ''dy'' = PNone \<and> dget a ''scroll_y'' = PNone)))
      \<or> (t = PStr ''key'' \<and> \<not> py_truthy (dget a ''key'') \<and> \<not> py_truthy (dget a ''code'')))"

definition duration_converts :: "pydict \<Rightarrow> bool" where
  "duration_converts a = converts (dget_default a ''duration_ms'' (PInt 300))"

text \<open>What converts: white space around the number is skipped, the separators 0x1C to 0x1F
  are not white space for \<open>int()\<close>, 0x85 is.\<close>

lemma int_of_str_spaces:
  "int_of_str '' 250 '' = Inr 250
   \<and> int_of_str (CHR 0x1C # ''300'') = Inl ValueError
   \<and> int_of_str (''300'' @ [CHR 0x1F]) = Inl ValueError
   \<and> int_of_str (CHR 0x85 # ''7'') = Inr 7
   \<and> int_of_str ''-1_000'' = Inr (- 1000)
   \<and> int_of_str ''fast'' = Inl ValueError"
  by code_simp

lemma drag_path_no_end:
  assumes "x2 = PNone \<or> y2 = PNone" and "\<not> path_end_given path"
    and "drag_path path (x, y, x2, y2) = (sx, sy, ex, ey)"
  shows "ex = PNone \<or> ey = PNone"
  using assms
  by (auto simp: drag_path_def path_end_given_def Let_def split: pyval.splits if_splits)

lemma click_missing:
  assumes "dget a ''type'' = PStr ''click''" and "dget a ''x'' = PNone \<or> dget a ''y'' = PNone"
  shows "map_computer_action ok a dev = (Inr (Some ''error: missing coordinates''), dev)"
  using assms by (auto simp: map_computer_action_def Let_def)

lemma double_click_missing:
  assumes "dget a ''type'' = PStr ''double_click''" and "dget a ''x'' = PNone \<or> dget a ''y'' = PNone"
  shows "map_computer_action ok a dev = (Inr (Some ''error: missing coordinates''), dev)"
  using assms by (auto simp: map_computer_action_def Let_def)

lemma drag_missing:
  assumes t: "dget a ''type'' = PStr ''drag''"
    and m: "dget a ''x2'' = PNone \<or> dget a ''y2'' = PNone" and p: "\<not> path_end_given (dget a ''path'')"
    and d: "duration_converts a"
  shows "map_computer_action ok a dev = (Inr (Some ''error: missing drag coordinates''), dev)"
proof -
  obtain n where n: "py_int (dget_default a ''duration_ms'' (PInt 300)) = Inr n"
    using d by (auto simp: duration_converts_def converts_def split: sum.splits)
  obtain sx sy ex ey where c: "drag_path (dget a ''path'') (dget a ''x'', dget a ''y'', dget a ''x2'', dget a ''y2'') = (sx, sy, ex, ey)"
    by (metis prod_cases4)
  from drag_path_no_end [OF m p c] have "ex = PNone \<or> ey = PNone" .
  then show ?thesis
    using t m n c by (auto simp: map_computer_action_def Let_def on_ok_def)
qed

lemma scroll_missing:
  assumes t: "dget a ''type'' = PStr ''scroll''"
    and m: "dget a ''x'' = PNone \<or> dget a ''y'' = PNone
             \<or> (dget a ''dx'' = PNone \<and> dget a ''scroll_x'' = PNone)
             \<or> (dget a ''dy'' = PNone \<and> dget a ''scroll_y'' = PNone)"
    and d: "duration_converts a"
  shows "map_computer_action ok a dev = (Inr (Some ''error: missing scroll parameters''), dev)"
proof -
  obtain n where n: "py_int (dget_default a ''duration_ms'' (PInt 300)) = Inr n"
    using d by (auto simp: duration_converts_def converts_def split: sum.splits)
  show ?thesis
    using t m n by (auto simp: map_computer_action_def Let_def on_ok_def)
qed

lemma key_missing:
  assumes "dget a ''type'' = PStr ''key''" and "\<not> py_truthy (dget a ''key'')" and "\<not> py_truthy (dget a ''code'')"
  shows "map_computer_action ok a dev = (Inr (Some ''error: missing key''), dev)"
  using assms by (simp add: map_computer_action_def Let_def py_or_def py_str_def)

text \<open>
  Claim C7, amended. A click, double click, drag, scroll or key action that lacks its
  required fields makes \<open>map_computer_action\<close> return an error string, with no exception and
  no device call, provided that for a drag or a scroll the \<open>duration_ms\<close> field, when
  present, converts to an int (it is converted before the fields are checked).
\<close>

theorem map_computer_action_missing_fields:
  assumes "lacks_required a"
    and "dget a ''type'' = PStr ''drag'' \<or> dget a ''type'' = PStr ''scroll'' \<longrightarrow> duration_converts a"
  shows "\<exists>msg. map_computer_action ok a dev = (Inr (Some msg), dev) \<and> is_error_status msg"
proof -
  from assms(1) consider
      (click) "dget a ''type'' = PStr ''click''" "dget a ''x'' = PNone \<or> dget a ''y'' = PNone"
    | (dbl) "dget a ''type'' = PStr ''double_click''" "dget a ''x'' = PNone \<or> dget a ''y'' = PNone"
    | (drag) "dget a ''type'' = PStr ''drag''" "dget a ''x2'' = PNone \<or> dget a ''y2'' = PNone"
        "\<not> path_end_given (dget a ''path'')"
    | (scroll) "dget a ''type'' = PStr ''scroll''"
        "dget a ''x'' = PNone \<or> dget a ''y'' = PNone
             \<or> (dget a ''dx'' = PNone \<and> dget a ''scroll_x'' = PNone)
             \<or> (dget a ''dy'' = PNone \<and> dget a ''scroll_y'' = PNone)"
    | (key) "dget a ''type'' = PStr ''key''" "\<not> py_truthy (dget a ''key'')" "\<not> py_truthy (dget a ''code'')"
    unfolding lacks_required_def Let_def by blast
  then show ?thesis
  proof cases
    case click
    then show ?thesis using click_missing [of a ok dev] by (simp add: is_error_status_def)
  next
    case dbl
    then show ?thesis using double_click_missing [of a ok dev] by (simp add: is_error_status_def)
  next
    case drag
    with assms(2) show ?thesis using drag_missing [of a ok dev] by (simp add: is_error_status_def)
  next
    case scroll
    with assms(2) show ?thesis using scroll_missing [of a ok dev] by (simp add: is_error_status_def)
  next
    case key
    then show ?thesis using key_missing [of a ok dev] by (simp add: is_error_status_def)
  qed
qed

theorem map_computer_action_missing_fields_witness:
  "lacks_required [(''type'', PStr ''click''), (''y'', PInt 5)]
   \<and> map_computer_action always_ok [(''type'', PStr ''click''), (''y'', PInt 5)] [] =
        (Inr (Some ''error: missing coordinates''), [])
   \<and> lacks_required [(''type'', PStr ''drag''), (''x'', PInt 1), (''y'', PInt 2), (''duration_ms'', PStr ''250'')]
   \<and> duration_converts [(''type'', PStr ''drag''), (''x'', PInt 1), (''y'', PInt 2), (''duration_ms'', PStr ''250'')]
   \<and> map_computer_action always_ok [(''type'', PStr ''drag''), (''x'', PInt 1), (''y'', PInt 2), (''duration_ms'', PStr ''250'')] [] =
        (Inr (Some ''error: missing drag coordinates''), [])
   \<and> is_error_status ''error: missing drag coordinates''"
  using map_computer_action_missing_fields [of "[(''type'', PStr ''click''), (''y'', PInt 5)]" always_ok "[]"]
    map_computer_action_missing_fields [of "[(''type'', PStr ''drag''), (''x'', PInt 1), (''y'', PInt 2), (''duration_ms'', PStr ''250'')]" always_ok "[]"]
  by (simp add: lacks_required_def duration_converts_def converts_def path_end_given_def dget_def dget_default_def
      map_computer_action_def on_ok_def drag_path_def is_error_status_def
      int_of_str_def int_strip_def int_isspace_def MAX_STR_DIGITS_def char_code_def is_digit_def)

text \<open>As stated, for every such action, the claim fails: a drag without coordinates whose
  \<open>duration_ms\<close> is the string \<open>fast\<close> raises \<open>ValueError\<close>.\<close>

theorem map_computer_action_missing_fields_counterexample:
  "lacks_required [(''type'', PStr ''drag''), (''duration_ms'', PStr ''fast'')]
   \<and> map_computer_action always_ok [(''type'', PStr ''drag''), (''duration_ms'', PStr ''fast'')] [] =
        (Inl ValueError, [])"
  by (simp add: lacks_required_def path_end_given_def dget_def dget_default_def
      map_computer_action_def on_ok_def
      int_of_str_def int_strip_def int_isspace_def MAX_STR_DIGITS_def char_code_def is_digit_def)

subsection \<open>Unrecognised action types\<close>











section \<open>Normalisation of backend-B actions\<close>

text \<open>The coordinates a payload gives: the elements of its \<open>coordinate\<close> and of its
  \<open>start_coordinate\<close>.\<close>

definition elements :: "pyval \<Rightarrow> pyval list" where
  "elements v = (case py_iter v of None \<Rightarrow> [] | Some xs \<Rightarrow> xs)"

definition given_coordinates :: "pydict \<Rightarrow> pyval set" where
  "given_coordinates inp = set (elements (dget inp ''coordinate'')) \<union> set (elements (dget inp ''start_coordinate''))"

definition coordinate_keys :: "string list" where
  "coordinate_keys = [''x'', ''y'', ''x2'', ''y2'']"

lemma unpack2_elements: "unpack2 v = Inr (a, b) \<Longrightarrow> a \<in> set (elements v) \<and> b \<in> set (elements v)"
  by (auto simp: unpack2_def elements_def split: option.splits list.splits)

lemma pair_or_origin:
  "pair_or v (PInt 0, PInt 0) = Inr (a, b) \<Longrightarrow>
     (a \<in> set (elements v) \<and> b \<in> set (elements v)) \<or> (\<not> py_truthy v \<and> a = PInt 0 \<and> b = PInt 0)"
  by (auto simp: pair_or_def dest: unpack2_elements split: if_splits)

text \<open>A value comes from the payload, or is the 0 put in for a missing \<open>coordinate\<close>.\<close>

definition from_payload :: "pydict \<Rightarrow> pyval \<Rightarrow> bool" where
  "from_payload inp v = (v \<in> given_coordinates inp \<or> (v = PInt 0 \<and> \<not> py_truthy (dget inp ''coordinate'')))"

lemma from_payload_coord:
  "pair_or (dget inp ''coordinate'') (PInt 0, PInt 0) = Inr (a, b) \<Longrightarrow> from_payload inp a \<and> from_payload inp b"
  by (auto simp: from_payload_def given_coordinates_def dest: pair_or_origin)

lemma from_payload_start:
  assumes "pair_or (py_or (dget inp ''start_coordinate'') (dget inp ''coordinate'')) (PInt 0, PInt 0) = Inr (a, b)"
  shows "from_payload inp a \<and> from_payload inp b"
proof (cases "py_truthy (dget inp ''start_coordinate'')")
  case True
  with assms have "unpack2 (dget inp ''start_coordinate'') = Inr (a, b)"
    by (simp add: py_or_def pair_or_def)
  then show ?thesis by (auto simp: from_payload_def given_coordinates_def dest: unpack2_elements)
next
  case False
  with assms show ?thesis by (simp add: py_or_def from_payload_coord)
qed

lemma from_payload_end:
  assumes "pair_or (dget inp ''coordinate'') (PInt 0, PInt 0) = Inr e0"
    and "(if py_truthy (dget inp ''start_coordinate'') then pair_or (dget inp ''coordinate'') e0 else Inr e0) = Inr (a, b)"
  shows "from_payload inp a \<and> from_payload inp b"
proof -
  have "pair_or (dget inp ''coordinate'') e0 = Inr e0" using assms(1) by (auto simp: pair_or_def split: if_splits)
  with assms(2) have "e0 = (a, b)" by (auto split: if_splits)
  with assms(1) show ?thesis by (simp add: from_payload_coord)
qed

lemma normalize_action_coordinates:
  assumes "normalize_action inp = Inr out" and "k \<in> set coordinate_keys" and "map_of out k = Some v"
  shows "from_payload inp v"
proof -
  let ?a = "dget_default inp ''action'' (PStr [])"
  consider (click) "?a = PStr ''left_click'' \<or> ?a = PStr ''right_click'' \<or> ?a = PStr ''middle_click''"
    | (dbl) "?a = PStr ''double_click''" | (type) "?a = PStr ''type''" | (key) "?a = PStr ''key''"
    | (scroll) "?a = PStr ''scroll''" | (drag) "?a = PStr ''left_click_drag''"
    | (other) "?a \<notin> PStr ` {''left_click'', ''right_click'', ''middle_click'', ''double_click'', ''type'', ''key'', ''scroll'', ''left_click_drag''}"
    by blast
  then show ?thesis
  proof cases
    case click
    with assms(1) obtain x y where "pair_or (dget inp ''coordinate'') (PInt 0, PInt 0) = Inr (x, y)"
      and "out = [(''type'', PStr ''click''), (''x'', x), (''y'', y)]"
      by (auto simp: normalize_action_def Let_def split: sum.splits)
    with assms(2,3) show ?thesis using from_payload_coord [of inp x y]
      by (auto simp: coordinate_keys_def split: if_splits)
  next
    case dbl
    with assms(1) obtain x y where "pair_or (dget inp ''coordinate'') (PInt 0, PInt 0) = Inr (x, y)"
      and "out = [(''type'', PStr ''double_click''), (''x'', x), (''y'', y)]"
      by (auto simp: normalize_action_def Let_def split: sum.splits)
    with assms(2,3) show ?thesis using from_payload_coord [of inp x y]
      by (auto simp: coordinate_keys_def split: if_splits)
  next
    case type
    with assms show ?thesis by (auto simp: normalize_action_def Let_def coordinate_keys_def split: if_splits)
  next
    case key
    with assms show ?thesis by (auto simp: normalize_action_def Let_def coordinate_keys_def split: if_splits)
  next
    case scroll
    with assms(1) obtain x y sx sy where "pair_or (dget inp ''coordinate'') (PInt 0, PInt 0) = Inr (x, y)"
      and "out = [(''type'', PStr ''scroll''), (''x'', x), (''y'', y), (''scroll_x'', sx), (''scroll_y'', sy)]"
      by (auto simp: normalize_action_def Let_def split: sum.splits)
    with assms(2,3) show ?thesis using from_payload_coord [of inp x y]
      by (auto simp: coordinate_keys_def split: if_splits)
  next
    case drag
    with assms(1) obtain sx sy e0 ex ey where
      s: "pair_or (py_or (dget inp ''start_coordinate'') (dget inp ''coordinate'')) (PInt 0, PInt 0) = Inr (sx, sy)"
      and e0: "pair_or (dget inp ''coordinate'') (PInt 0, PInt 0) = Inr e0"
      and e: "(if py_truthy (dget inp ''start_coordinate'') then pair_or (dget inp ''coordinate'') e0 else Inr e0) = Inr (ex, ey)"
      and o: "out = [(''type'', PStr ''drag''), (''x'', sx), (''y'', sy), (''x2'', ex), (''y2'', ey)]"
      by (auto simp: normalize_action_def Let_def split: sum.splits)
    from assms(2,3) o show ?thesis using from_payload_start [OF s] from_payload_end [OF e0 e]
      by (auto simp: coordinate_keys_def split: if_splits)
  next
    case other
    with assms show ?thesis by (auto simp: normalize_action_def Let_def coordinate_keys_def split: if_splits)
  qed
qed

text \<open>
  Claim C4, amended. For the payload \<open>{action: left_click_drag, coordinate: [50,50]}\<close>
  with no \<open>start_coordinate\<close> the normaliser reports no error and returns a drag whose start
  and end are both (50,50). Every \<open>x\<close>, \<open>y\<close>, \<open>x2\<close>, \<open>y2\<close> of a normalised action is an
  element of the payload's \<open>coordinate\<close> or \<open>start_coordinate\<close>, or is the 0 that the
  normaliser substitutes when \<open>coordinate\<close> is absent or empty.
\<close>

theorem normalize_action_no_fabrication:
  "normalize_action [(''action'', PStr ''left_click_drag''), (''coordinate'', PList [PInt 50, PInt 50])] =
     Inr [(''type'', PStr ''drag''), (''x'', PInt 50), (''y'', PInt 50), (''x2'', PInt 50), (''y2'', PInt 50)]
   \<and> (normalize_action inp = Inr out \<and> k \<in> set coordinate_keys \<and> map_of out k = Some v
        \<longrightarrow> v \<in> given_coordinates inp \<or> (v = PInt 0 \<and> \<not> py_truthy (dget inp ''coordinate'')))"
proof (intro conjI impI)
  show "normalize_action [(''action'', PStr ''left_click_drag''), (''coordinate'', PList [PInt 50, PInt 50])] =
     Inr [(''type'', PStr ''drag''), (''x'', PInt 50), (''y'', PInt 50), (''x2'', PInt 50), (''y2'', PInt 50)]"
    by (simp add: normalize_action_def dget_def dget_default_def pair_or_def py_or_def unpack2_def py_iter_def)
next
  assume "normalize_action inp = Inr out \<and> k \<in> set coordinate_keys \<and> map_of out k = Some v"
  then have "from_payload inp v" using normalize_action_coordinates by blast
  then show "v \<in> given_coordinates inp \<or> (v = PInt 0 \<and> \<not> py_truthy (dget inp ''coordinate''))"
    by (simp add: from_payload_def)
qed

theorem normalize_action_no_fabrication_witness:
  "normalize_action [(''action'', PStr ''left_click''), (''coordinate'', PList [PInt 7, PInt 9])] =
     Inr [(''type'', PStr ''click''), (''x'', PInt 7), (''y'', PInt 9)]
   \<and> ''y'' \<in> set coordinate_keys
   \<and> map_of [(''type'', PStr ''click''), (''x'', PInt 7), (''y'', PInt 9)] ''y'' = Some (PInt 9)
   \<and> PInt 9 \<in> given_coordinates [(''action'', PStr ''left_click''), (''coordinate'', PList [PInt 7, PInt 9])]"
proof -
  have n: "normalize_action [(''action'', PStr ''left_click''), (''coordinate'', PList [PInt 7, PInt 9])] =
     Inr [(''type'', PStr ''click''), (''x'', PInt 7), (''y'', PInt 9)]"
    by (simp add: normalize_action_def dget_def dget_default_def pair_or_def py_or_def unpack2_def py_iter_def)
  have k: "''y'' \<in> set coordinate_keys" by (simp add: coordinate_keys_def)
  have m: "map_of [(''type'', PStr ''click''), (''x'', PInt 7), (''y'', PInt 9)] ''y'' = Some (PInt 9)" by simp
  have t: "py_truthy (dget [(''action'', PStr ''left_click''), (''coordinate'', PList [PInt 7, PInt 9])] ''coordinate'')"
    by (simp add: dget_def dget_default_def)
  from normalize_action_no_fabrication [of "[(''action'', PStr ''left_click''), (''coordinate'', PList [PInt 7, PInt 9])]"
      "[(''type'', PStr ''click''), (''x'', PInt 7), (''y'', PInt 9)]" "''y''" "PInt 9"] n k m t
  have "PInt 9 \<in> given_coordinates [(''action'', PStr ''left_click''), (''coordinate'', PList [PInt 7, PInt 9])]"
    by blast
  with n k m show ?thesis by blast
qed

text \<open>As stated (no coordinate value absent from the payload), the claim fails: a
  \<open>left_click\<close> without \<open>coordinate\<close> is normalised to a click at (0,0).\<close>

theorem normalize_action_no_fabrication_counterexample:
  "normalize_action [(''action'', PStr ''left_click'')] = Inr [(''type'', PStr ''click''), (''x'', PInt 0), (''y'', PInt 0)]
   \<and> PInt 0 \<notin> given_coordinates [(''action'', PStr ''left_click'')]"
  by (simp add: normalize_action_def dget_def dget_default_def pair_or_def given_coordinates_def elements_def py_iter_def)

section \<open>The repetition guard\<close>

text \<open>Two states agree on the repetition tracker and on the completion flags.\<close>

definition same_ctl :: "agent_state \<Rightarrow> agent_state \<Rightarrow> bool" where
  "same_ctl s s' = (repeat_count s' = repeat_count s \<and> last_sig s' = last_sig s
     \<and> finished s' = finished s \<and> explicit_success s' = explicit_success s)"

lemma same_ctl_refl [simp]: "same_ctl s s"
  by (simp add: same_ctl_def)

lemma same_ctl_trans: "same_ctl s s1 \<Longrightarrow> same_ctl s1 s2 \<Longrightarrow> same_ctl s s2"
  by (simp add: same_ctl_def)

lemma same_ctl_log: "same_ctl s (log m s)"
  by (simp add: same_ctl_def log_def)

lemma same_ctl_dev_step: "dev_step e c s = (r, s') \<Longrightarrow> same_ctl s s'"
  by (auto simp: dev_step_def same_ctl_def split: prod.splits)

lemma same_ctl_preclick: "same_ctl s (preclick_marker i a s)"
  by (auto simp: preclick_marker_def same_ctl_def split: pyval.splits sum.splits)

lemma same_ctl_run_action: "run_action e a s = (r, s') \<Longrightarrow> same_ctl s s'"
  by (auto simp: run_action_def same_ctl_def split: prod.splits sum.splits)

lemma same_ctl_and_then:
  assumes "and_then m f = (r, s')"
    and "\<And>r1 s1. m = (r1, s1) \<Longrightarrow> same_ctl s s1"
    and "\<And>v s1 r2 s2. f v s1 = (r2, s2) \<Longrightarrow> same_ctl s1 s2"
  shows "same_ctl s s'"
  using assms by (auto simp: and_then_def split: prod.splits sum.splits intro: same_ctl_trans)

lemma same_ctl_execute: "execute_action e i a s = (r, s') \<Longrightarrow> same_ctl s s'"
  unfolding execute_action_def
  apply (erule same_ctl_and_then)
   apply (rule same_ctl_trans [OF same_ctl_preclick])
   apply (erule same_ctl_run_action)
  apply (drule same_ctl_dev_step)
  apply (auto simp: same_ctl_def)
  done

lemma dev_step_ok:
  "device_ok e (length (dev_trace s)) c \<Longrightarrow> dev_step e c s = (Inr (), s\<lparr>dev_trace := dev_trace s @ [c]\<rparr>)"
  by (simp add: dev_step_def issue_def)

lemma escape_repeat_ok:
  assumes "device_ok e (length (dev_trace s)) (Keyevent ''4'')"
    and "device_ok e (Suc (length (dev_trace s))) Settle"
  shows "escape_repeat e s =
     (Inr (), s\<lparr>step_logs := step_logs s @ [LogRepeated],
                dev_trace := dev_trace s @ [Keyevent ''4'', Settle], repeat_count := 0\<rparr>)"
  using assms by (simp add: escape_repeat_def and_then_def dev_step_def issue_def log_def)

text \<open>A backend that answers every turn with the same click at (100,100); the device calls
  of one such click; the states after ten of them and after one in a fresh sub-goal.\<close>

definition click100 :: LLMOutputItem where
  "click100 = \<lparr>item_type = COMPUTER_ACTION, item_text = None,
      item_action = Some (PDict [(''type'', PStr ''click''), (''x'', PInt 100), (''y'', PInt 100)]),
      item_success = None\<rparr>"

definition click_env :: agent_env where
  "click_env = \<lparr>device_ok = always_ok, create_turn = (\<lambda>g. Some [click100]),
                 device_resolution = (\<lambda>g. (1080, 2400)), device_rotation = (\<lambda>g. 0),
                 recorder_starts = True, max_agent_steps = 250\<rparr>"

definition click_round :: "dev_call list" where
  "click_round = [ScreenshotWithMarker (PreclickMarked 0) 100 100, Tap 100 100, Settle]"

definition ten_clicks :: agent_state where
  "ten_clicks = snd (process_items click_env 1 (replicate 10 click100) initial_state)"

definition one_click :: agent_state where
  "one_click = snd (process_items click_env 1 [click100] initial_state)"

text \<open>
  Claim C1, amended. The repeat counter counts repeats, not occurrences: the first of a run
  of identical actions sets it to 0 and each identical successor adds one. An action that
  is the tenth consecutive repeat (the eleventh identical action) is not executed: BACK
  (key event 4) and the settle delay are issued instead and the counter resets to 0, the
  last signature being kept, so the same action seen again counts from 1. Below ten repeats
  the action is executed and the counter is one more; a different action resets it to 0.
  Given 11 consecutive identical clicks at (100,100), the first ten are tapped and the
  eleventh is replaced by BACK; a twelfth is tapped again with the counter at 1.
\<close>

theorem repetition_guard:
  "(last_sig s = Some (json_dumps (action_or_empty act)) \<and> 9 \<le> repeat_count s
      \<and> device_ok e (length (dev_trace s)) (Keyevent ''4'') \<and> device_ok e (Suc (length (dev_trace s))) Settle
     \<longrightarrow> fst (process_action e i act s) = Inr ()
         \<and> dev_trace (snd (process_action e i act s)) = dev_trace s @ [Keyevent ''4'', Settle]
         \<and> repeat_count (snd (process_action e i act s)) = 0
         \<and> last_sig (snd (process_action e i act s)) = last_sig s
         \<and> actions_this_turn (snd (process_action e i act s)) = actions_this_turn s)
   \<and> (last_sig s = Some (json_dumps (action_or_empty act)) \<and> repeat_count s < 9
     \<longrightarrow> repeat_count (snd (process_action e i act s)) = repeat_count s + 1
         \<and> last_sig (snd (process_action e i act s)) = last_sig s)
   \<and> (last_sig s \<noteq> Some (json_dumps (action_or_empty act))
     \<longrightarrow> repeat_count (snd (process_action e i act s)) = 0
         \<and> last_sig (snd (process_action e i act s)) = Some (json_dumps (action_or_empty act)))
   \<and> dev_trace (snd (process_items click_env 1 (replicate 11 click100) initial_state)) =
        concat (replicate 10 click_round) @ [Keyevent ''4'', Settle]
   \<and> repeat_count (snd (process_items click_env 1 (replicate 11 click100) initial_state)) = 0
   \<and> dev_trace (snd (process_items click_env 1 (replicate 12 click100) initial_state)) =
        concat (replicate 10 click_round) @ [Keyevent ''4'', Settle] @ click_round
   \<and> repeat_count (snd (process_items click_env 1 (replicate 12 click100) initial_state)) = 1"
proof (intro conjI impI)
  let ?a = "action_or_empty act"
  let ?s1 = "track_repeat ?a (log (LogAction ?a) s)"
  {
    assume h: "last_sig s = Some (json_dumps ?a) \<and> 9 \<le> repeat_count s
      \<and> device_ok e (length (dev_trace s)) (Keyevent ''4'') \<and> device_ok e (Suc (length (dev_trace s))) Settle"
    then have s1: "?s1 = (log (LogAction ?a) s)\<lparr>repeat_count := repeat_count s + 1\<rparr>"
      by (simp add: track_repeat_def Let_def log_def)
    have tr: "dev_trace ?s1 = dev_trace s" "actions_this_turn ?s1 = actions_this_turn s"
      by (simp_all add: track_repeat_def Let_def log_def)
    have ls: "last_sig ?s1 = last_sig s"
      using h by (simp add: track_repeat_def Let_def log_def)
    have p: "process_action e i act s = escape_repeat e ?s1"
      using h by (simp add: process_action_def Let_def s1)
    have q: "escape_repeat e ?s1 =
       (Inr (), ?s1\<lparr>step_logs := step_logs ?s1 @ [LogRepeated],
                dev_trace := dev_trace ?s1 @ [Keyevent ''4'', Settle], repeat_count := 0\<rparr>)"
      using h tr by (intro escape_repeat_ok) simp_all
    show "fst (process_action e i act s) = Inr ()" by (simp add: p q)
    show "dev_trace (snd (process_action e i act s)) = dev_trace s @ [Keyevent ''4'', Settle]"
      unfolding p q by (simp add: tr)
    show "repeat_count (snd (process_action e i act s)) = 0" unfolding p q by simp
    show "last_sig (snd (process_action e i act s)) = last_sig s" unfolding p q by (simp add: ls)
    show "actions_this_turn (snd (process_action e i act s)) = actions_this_turn s"
      unfolding p q by (simp add: tr)
  }
  {
    assume h: "last_sig s = Some (json_dumps ?a) \<and> repeat_count s < 9"
    then have s1: "?s1 = (log (LogAction ?a) s)\<lparr>repeat_count := repeat_count s + 1\<rparr>"
      by (simp add: track_repeat_def Let_def log_def)
    have p: "process_action e i act s = execute_action e i ?a ?s1"
      using h by (simp add: process_action_def Let_def s1)
    have "same_ctl ?s1 (snd (process_action e i act s))"
      unfolding p by (rule same_ctl_execute [of e i ?a ?s1 "fst (execute_action e i ?a ?s1)"]) simp
    moreover have "repeat_count ?s1 = repeat_count s + 1" "last_sig ?s1 = last_sig s"
      using h by (simp_all add: track_repeat_def Let_def log_def)
    ultimately show "repeat_count (snd (process_action e i act s)) = repeat_count s + 1"
      and "last_sig (snd (process_action e i act s)) = last_sig s"
      by (simp_all add: same_ctl_def)
  }
  {
    assume h: "last_sig s \<noteq> Some (json_dumps ?a)"
    then have s1: "?s1 = (log (LogAction ?a) s)\<lparr>repeat_count := 0, last_sig := Some (json_dumps ?a)\<rparr>"
      by (simp add: track_repeat_def Let_def log_def)
    have p: "process_action e i act s = execute_action e i ?a ?s1"
      by (simp add: process_action_def Let_def s1)
    have "same_ctl ?s1 (snd (process_action e i act s))"
      unfolding p by (rule same_ctl_execute [of e i ?a ?s1 "fst (execute_action e i ?a ?s1)"]) simp
    moreover have "repeat_count ?s1 = 0" "last_sig ?s1 = Some (json_dumps ?a)"
      using h by (simp_all add: track_repeat_def Let_def log_def)
    ultimately show "repeat_count (snd (process_action e i act s)) = 0"
      and "last_sig (snd (process_action e i act s)) = Some (json_dumps ?a)"
      by (simp_all add: same_ctl_def)
  }
  show "dev_trace (snd (process_items click_env 1 (replicate 11 click100) initial_state)) =
        concat (replicate 10 click_round) @ [Keyevent ''4'', Settle]"
    by code_simp
  show "repeat_count (snd (process_items click_env 1 (replicate 11 click100) initial_state)) = 0"
    by code_simp
  show "dev_trace (snd (process_items click_env 1 (replicate 12 click100) initial_state)) =
        concat (replicate 10 click_round) @ [Keyevent ''4'', Settle] @ click_round"
    by code_simp
  show "repeat_count (snd (process_items click_env 1 (replicate 12 click100) initial_state)) = 1"
    by code_simp
qed

theorem repetition_guard_witness:
  "last_sig ten_clicks = Some (json_dumps (action_or_empty (item_action click100)))
   \<and> repeat_count ten_clicks = 9
   \<and> fst (process_action click_env 1 (item_action click100) ten_clicks) = Inr ()
   \<and> dev_trace (snd (process_action click_env 1 (item_action click100) ten_clicks)) =
        dev_trace ten_clicks @ [Keyevent ''4'', Settle]
   \<and> repeat_count (snd (process_action click_env 1 (item_action click100) ten_clicks)) = 0
   \<and> last_sig one_click = Some (json_dumps (action_or_empty (item_action click100)))
   \<and> repeat_count one_click = 0
   \<and> repeat_count (snd (process_action click_env 1 (item_action click100) one_click)) = 1
   \<and> last_sig initial_state = None
   \<and> repeat_count (snd (process_action click_env 1 (item_action click100) initial_state)) = 0
   \<and> last_sig (snd (process_action click_env 1 (item_action click100) initial_state)) =
        Some (json_dumps (action_or_empty (item_action click100)))"
proof -
  have a: "last_sig ten_clicks = Some (json_dumps (action_or_empty (item_action click100)))"
    unfolding ten_clicks_def by code_simp
  have b: "repeat_count ten_clicks = 9"
    unfolding ten_clicks_def by code_simp
  have c: "device_ok click_env (length (dev_trace ten_clicks)) (Keyevent ''4'')"
    "device_ok click_env (Suc (length (dev_trace ten_clicks))) Settle"
    by (simp_all add: click_env_def always_ok_def)
  have d: "last_sig one_click = Some (json_dumps (action_or_empty (item_action click100)))"
    unfolding one_click_def by code_simp
  have e: "repeat_count one_click = 0"
    unfolding one_click_def by code_simp
  have f: "last_sig initial_state = None"
    by (simp add: initial_state_def)
  note w1 = repetition_guard [of ten_clicks "item_action click100" click_env 1]
  note w2 = repetition_guard [of one_click "item_action click100" click_env 1]
  note w3 = repetition_guard [of initial_state "item_action click100" click_env 1]
  from w1 a b c have g: "fst (process_action click_env 1 (item_action click100) ten_clicks) = Inr ()
     \<and> dev_trace (snd (process_action click_env 1 (item_action click100) ten_clicks)) =
          dev_trace ten_clicks @ [Keyevent ''4'', Settle]
     \<and> repeat_count (snd (process_action click_env 1 (item_action click100) ten_clicks)) = 0"
    by simp
  from w2 d e have h: "repeat_count (snd (process_action click_env 1 (item_action click100) one_click)) = 1"
    by simp
  from w3 f have i: "repeat_count (snd (process_action click_env 1 (item_action click100) initial_state)) = 0
     \<and> last_sig (snd (process_action click_env 1 (item_action click100) initial_state)) =
          Some (json_dumps (action_or_empty (item_action click100)))"
    by simp
  from a b g d e h f i show ?thesis by blast
qed

text \<open>As stated (the tenth identical action is replaced), the claim fails: ten identical
  clicks at (100,100) are all tapped, no BACK is sent, and the counter stands at 9.\<close>

theorem repetition_guard_counterexample:
  "dev_trace (snd (process_items click_env 1 (replicate 10 click100) initial_state)) =
     concat (replicate 10 click_round)
   \<and> Keyevent ''4'' \<notin> set (dev_trace (snd (process_items click_env 1 (replicate 10 click100) initial_state)))
   \<and> repeat_count (snd (process_items click_env 1 (replicate 10 click100) initial_state)) = 9"
  by code_simp

section \<open>Completion signals\<close>

text \<open>An \<open>END_TEST\<close> item ends the sub-goal when its \<open>success\<close> is true; with a false (or
  missing) \<open>success\<close> it is ignored.\<close>

definition is_end_test_success :: "LLMOutputItem \<Rightarrow> bool" where
  "is_end_test_success it = (item_type it = END_TEST \<and> item_success it = Some True)"

definition is_end_test_ignored :: "LLMOutputItem \<Rightarrow> bool" where
  "is_end_test_ignored it = (item_type it = END_TEST \<and> item_success it \<noteq> Some True)"

lemma escape_repeat_fin:
  "escape_repeat e s = (r, s') \<Longrightarrow> finished s' = finished s \<and> explicit_success s' = explicit_success s"
  by (auto simp: escape_repeat_def and_then_def dev_step_def issue_def log_def split: if_splits)

lemma process_action_fin:
  assumes "process_action e i a s = (r, s')"
  shows "finished s' = finished s \<and> explicit_success s' = explicit_success s"
proof -
  let ?s1 = "track_repeat (action_or_empty a) (log (LogAction (action_or_empty a)) s)"
  have t: "finished ?s1 = finished s \<and> explicit_success ?s1 = explicit_success s"
    by (simp add: track_repeat_def Let_def log_def)
  show ?thesis
  proof (cases "10 \<le> repeat_count ?s1")
    case True
    with assms have "escape_repeat e ?s1 = (r, s')" by (simp add: process_action_def Let_def)
    from escape_repeat_fin [OF this] t show ?thesis by simp
  next
    case False
    with assms have "execute_action e i (action_or_empty a) ?s1 = (r, s')" by (simp add: process_action_def Let_def)
    from same_ctl_execute [OF this] t show ?thesis by (simp add: same_ctl_def)
  qed
qed

lemma process_items_no_success:
  assumes "\<not> list_ex is_end_test_success items" and "process_items e i items s = (r, s')"
  shows "finished s' = finished s \<and> explicit_success s' = explicit_success s"
  using assms
proof (induction items arbitrary: s)
  case Nil
  then show ?case by simp
next
  case (Cons it its)
  then have n: "\<not> list_ex is_end_test_success its" and h: "\<not> is_end_test_success it" by simp_all
  show ?case
  proof (cases "item_type it")
    case REASONING
    with Cons.prems(2) have "process_items e i its
       (let txt = (case item_text it of None \<Rightarrow> [] | Some t \<Rightarrow> t);
               s1 = s\<lparr>produced_texts := produced_texts s @ [txt]\<rparr>
         in (if txt \<noteq> [] then log (LogReasoning txt) (s1\<lparr>last_reasoning_text := txt\<rparr>) else s1)) = (r, s')"
      by (simp add: Let_def)
    from Cons.IH [OF n this] show ?thesis
      by (auto simp: Let_def log_def split: if_splits)
  next
    case COMPUTER_ACTION
    obtain r1 s1 where p: "process_action e i (item_action it) s = (r1, s1)"
      by (cases "process_action e i (item_action it) s")
    note f = process_action_fin [OF p]
    show ?thesis
    proof (cases r1)
      case (Inl ex)
      with Cons.prems(2) COMPUTER_ACTION p f show ?thesis by simp
    next
      case (Inr u)
      with Cons.prems(2) COMPUTER_ACTION p have "process_items e i its s1 = (r, s')" by simp
      from Cons.IH [OF n this] f show ?thesis by simp
    qed
  next
    case END_TEST
    with h have "item_success it \<noteq> Some True" by (simp add: is_end_test_success_def)
    with Cons.prems(2) END_TEST have "process_items e i its (log LogIgnoredEndTest s) = (r, s')" by simp
    from Cons.IH [OF n this] show ?thesis by (simp add: log_def)
  qed
qed

lemma process_items_stop:
  assumes "is_end_test_success it"
  shows "process_items e i (pre @ it # post) s = process_items e i (pre @ [it]) s"
proof (induction pre arbitrary: s)
  case Nil
  from assms show ?case by (simp add: is_end_test_success_def)
next
  case (Cons p pre)
  show ?case
    by (cases "item_type p") (auto simp: Cons.IH Let_def split: prod.splits sum.splits)
qed

lemma finish_end_test_flags:
  "finished (finish_end_test e i s) \<and> explicit_success (finish_end_test e i s) = Some True
   \<and> turns_this_sub (finish_end_test e i s) = turns_this_sub s"
  by (simp add: finish_end_test_def Let_def log_def split: prod.splits)

text \<open>Items used to exercise the theorems: a failed and a successful \<open>end_test\<close>.\<close>

definition end_test_false :: LLMOutputItem where
  "end_test_false = \<lparr>item_type = END_TEST, item_text = None, item_action = None, item_success = Some False\<rparr>"

definition end_test_true :: LLMOutputItem where
  "end_test_true = \<lparr>item_type = END_TEST, item_text = None, item_action = None, item_success = Some True\<rparr>"

text \<open>
  Claim C3. In the items of a turn, an \<open>END_TEST\<close> item whose \<open>success\<close> is false is logged
  and skipped: the remaining items are processed from the same state but for the log entry,
  and the sub-goal is not finished by it; a turn without a successful \<open>END_TEST\<close> leaves the
  completion flags as they were. An \<open>END_TEST\<close> item whose \<open>success\<close> is true finishes the
  sub-goal as successful at once: whatever follows it in the turn is not processed, and the
  loop over the turns stops.
\<close>

theorem end_test_items:
  "(is_end_test_ignored it \<longrightarrow>
      process_items e i (it # its) s = process_items e i its (log LogIgnoredEndTest s)
      \<and> finished (log LogIgnoredEndTest s) = finished s
      \<and> log LogIgnoredEndTest s = s\<lparr>step_logs := step_logs s @ [LogIgnoredEndTest]\<rparr>)
   \<and> (is_end_test_success it \<longrightarrow>
      process_items e i (it # its) s = (Inr (), finish_end_test e i s)
      \<and> finished (finish_end_test e i s)
      \<and> explicit_success (finish_end_test e i s) = Some True
      \<and> process_items e i (pre @ it # its) s = process_items e i (pre @ [it]) s
      \<and> turn_loop e i (finish_end_test e i s) = (Inr (), finish_end_test e i s))
   \<and> (\<not> list_ex is_end_test_success items \<longrightarrow>
      finished (snd (process_items e i items s)) = finished s
      \<and> explicit_success (snd (process_items e i items s)) = explicit_success s)"
proof (intro conjI impI)
  assume a: "is_end_test_ignored it"
  then show "process_items e i (it # its) s = process_items e i its (log LogIgnoredEndTest s)"
    by (simp add: is_end_test_ignored_def)
  show "finished (log LogIgnoredEndTest s) = finished s" by (simp add: log_def)
  show "log LogIgnoredEndTest s = s\<lparr>step_logs := step_logs s @ [LogIgnoredEndTest]\<rparr>" by (simp add: log_def)
next
  assume a: "is_end_test_success it"
  then show "process_items e i (it # its) s = (Inr (), finish_end_test e i s)"
    by (simp add: is_end_test_success_def)
  show "finished (finish_end_test e i s)" by (simp add: finish_end_test_flags)
  show "explicit_success (finish_end_test e i s) = Some True" by (simp add: finish_end_test_flags)
  show "process_items e i (pre @ it # its) s = process_items e i (pre @ [it]) s"
    using a by (rule process_items_stop)
  show "turn_loop e i (finish_end_test e i s) = (Inr (), finish_end_test e i s)"
    by (subst turn_loop.simps) (simp add: finish_end_test_flags)
next
  assume a: "\<not> list_ex is_end_test_success items"
  obtain r s' where p: "process_items e i items s = (r, s')" by (cases "process_items e i items s")
  from process_items_no_success [OF a p] p
  show "finished (snd (process_items e i items s)) = finished s"
    and "explicit_success (snd (process_items e i items s)) = explicit_success s" by simp_all
qed

theorem end_test_items_witness:
  "is_end_test_ignored end_test_false \<and> is_end_test_success end_test_true
   \<and> process_items click_env 1 [end_test_false, end_test_true, click100] initial_state =
        (Inr (), finish_end_test click_env 1 (log LogIgnoredEndTest initial_state))
   \<and> dev_trace (finish_end_test click_env 1 (log LogIgnoredEndTest initial_state)) = [Screenshot (EndTestFile 0)]
   \<and> \<not> list_ex is_end_test_success [end_test_false, click100]
   \<and> \<not> finished (snd (process_items click_env 1 [end_test_false, click100] initial_state))"
proof -
  have a: "is_end_test_ignored end_test_false"
    by (simp add: is_end_test_ignored_def end_test_false_def)
  have b: "is_end_test_success end_test_true"
    by (simp add: is_end_test_success_def end_test_true_def)
  have c: "\<not> list_ex is_end_test_success [end_test_false, click100]"
    by (simp add: is_end_test_success_def end_test_false_def click100_def)
  have d: "dev_trace (finish_end_test click_env 1 (log LogIgnoredEndTest initial_state)) = [Screenshot (EndTestFile 0)]"
    by (simp add: finish_end_test_def Let_def log_def initial_state_def issue_def)
  have f: "\<not> finished initial_state" by (simp add: initial_state_def)
  note t1 = end_test_items [of end_test_false click_env 1 "[end_test_true, click100]" initial_state
      "[]" "[end_test_false, click100]"]
  note t2 = end_test_items [of end_test_true click_env 1 "[click100]" "log LogIgnoredEndTest initial_state"
      "[]" "[]"]
  from t1 a have e1: "process_items click_env 1 [end_test_false, end_test_true, click100] initial_state =
      process_items click_env 1 [end_test_true, click100] (log LogIgnoredEndTest initial_state)"
    by blast
  from t2 b have e2: "process_items click_env 1 [end_test_true, click100] (log LogIgnoredEndTest initial_state) =
      (Inr (), finish_end_test click_env 1 (log LogIgnoredEndTest initial_state))"
    by blast
  from t1 c have e3: "finished (snd (process_items click_env 1 [end_test_false, click100] initial_state)) =
      finished initial_state"
    by blast
  from e1 e2 have e: "process_items click_env 1 [end_test_false, end_test_true, click100] initial_state =
      (Inr (), finish_end_test click_env 1 (log LogIgnoredEndTest initial_state))"
    by (rule trans)
  from e3 f have g: "\<not> finished (snd (process_items click_env 1 [end_test_false, click100] initial_state))"
    by blast
  from a b e d c g show ?thesis by blast
qed

section \<open>The turn budget\<close>

text \<open>The completion flags agree: \<open>explicit_success\<close> is \<open>True\<close> when the sub-goal is finished
  and \<open>None\<close> otherwise.\<close>

definition flags_agree :: "agent_state \<Rightarrow> bool" where
  "flags_agree s = (explicit_success s = (if finished s then Some True else None))"

lemma process_items_flags:
  assumes "process_items e i items s = (r, s')" and "flags_agree s"
  shows "flags_agree s'"
  using assms
proof (induction items arbitrary: s)
  case Nil
  then show ?case by simp
next
  case (Cons it its)
  show ?case
  proof (cases "item_type it")
    case REASONING
    with Cons.prems(1) have "process_items e i its
       (let txt = (case item_text it of None \<Rightarrow> [] | Some t \<Rightarrow> t);
               s1 = s\<lparr>produced_texts := produced_texts s @ [txt]\<rparr>
         in (if txt \<noteq> [] then log (LogReasoning txt) (s1\<lparr>last_reasoning_text := txt\<rparr>) else s1)) = (r, s')"
      by (simp add: Let_def)
    moreover have "flags_agree (let txt = (case item_text it of None \<Rightarrow> [] | Some t \<Rightarrow> t);
               s1 = s\<lparr>produced_texts := produced_texts s @ [txt]\<rparr>
         in (if txt \<noteq> [] then log (LogReasoning txt) (s1\<lparr>last_reasoning_text := txt\<rparr>) else s1))"
      using Cons.prems(2) by (simp add: flags_agree_def Let_def log_def)
    ultimately show ?thesis by (rule Cons.IH)
  next
    case COMPUTER_ACTION
    obtain r1 s1 where p: "process_action e i (item_action it) s = (r1, s1)"
      by (cases "process_action e i (item_action it) s")
    from process_action_fin [OF p] Cons.prems(2) have f: "flags_agree s1" by (simp add: flags_agree_def)
    show ?thesis
    proof (cases r1)
      case (Inl ex)
      with Cons.prems(1) COMPUTER_ACTION p f show ?thesis by simp
    next
      case (Inr u)
      with Cons.prems(1) COMPUTER_ACTION p have "process_items e i its s1 = (r, s')" by simp
      from Cons.IH [OF this f] show ?thesis .
    qed
  next
    case END_TEST
    show ?thesis
    proof (cases "item_success it = Some True")
      case True
      with Cons.prems(1) END_TEST have "s' = finish_end_test e i s" by simp
      then show ?thesis by (simp add: flags_agree_def finish_end_test_flags)
    next
      case False
      with Cons.prems(1) END_TEST have "process_items e i its (log LogIgnoredEndTest s) = (r, s')" by simp
      moreover have "flags_agree (log LogIgnoredEndTest s)" using Cons.prems(2) by (simp add: flags_agree_def log_def)
      ultimately show ?thesis by (rule Cons.IH)
    qed
  qed
qed

lemma end_turn_fin:
  "end_turn e i s = (r, s') \<Longrightarrow> finished s' = finished s \<and> explicit_success s' = explicit_success s"
  by (auto simp: end_turn_def and_then_def dev_step_def issue_def log_def split: if_splits option.splits)

lemma begin_turn_fin:
  "finished (reset_turn_locals (begin_turn e i s)) = finished s
   \<and> explicit_success (reset_turn_locals (begin_turn e i s)) = explicit_success s
   \<and> finished (begin_turn e i s) = finished s \<and> explicit_success (begin_turn e i s) = explicit_success s"
  by (simp add: reset_turn_locals_def begin_turn_def Let_def log_def)

lemma run_turn_flags:
  assumes "run_turn e i s = (r, s')" and "flags_agree s"
  shows "flags_agree s'"
proof (cases "create_turn e (global_turn_index (begin_turn e i s))")
  case None
  with assms(1) have "s' = begin_turn e i s" by (simp add: run_turn_def Let_def)
  with assms(2) show ?thesis by (simp add: flags_agree_def begin_turn_fin)
next
  case (Some items)
  obtain r1 s1 where p: "process_items e i items (reset_turn_locals (begin_turn e i s)) = (r1, s1)"
    by (cases "process_items e i items (reset_turn_locals (begin_turn e i s))")
  have "flags_agree (reset_turn_locals (begin_turn e i s))"
    using assms(2) by (simp add: flags_agree_def begin_turn_fin)
  from process_items_flags [OF p this] have f: "flags_agree s1" .
  show ?thesis
  proof (cases r1)
    case (Inl ex)
    with assms(1) Some p f show ?thesis by (simp add: run_turn_def Let_def)
  next
    case (Inr u)
    with assms(1) Some p have "end_turn e i s1 = (r, s')" by (simp add: run_turn_def Let_def)
    from end_turn_fin [OF this] f show ?thesis by (simp add: flags_agree_def)
  qed
qed

lemma run_turn_no_success:
  assumes "run_turn e i s = (r, s')"
    and "\<forall>g items. create_turn e g = Some items \<longrightarrow> \<not> list_ex is_end_test_success items"
  shows "finished s' = finished s"
proof (cases "create_turn e (global_turn_index (begin_turn e i s))")
  case None
  with assms(1) have "s' = begin_turn e i s" by (simp add: run_turn_def Let_def)
  then show ?thesis by (simp add: begin_turn_fin)
next
  case (Some items)
  obtain r1 s1 where p: "process_items e i items (reset_turn_locals (begin_turn e i s)) = (r1, s1)"
    by (cases "process_items e i items (reset_turn_locals (begin_turn e i s))")
  from assms(2) Some have "\<not> list_ex is_end_test_success items" by blast
  from process_items_no_success [OF this p] have f: "finished s1 = finished s" by (simp add: begin_turn_fin)
  show ?thesis
  proof (cases r1)
    case (Inl ex)
    with assms(1) Some p f show ?thesis by (simp add: run_turn_def Let_def)
  next
    case (Inr u)
    with assms(1) Some p have "end_turn e i s1 = (r, s')" by (simp add: run_turn_def Let_def)
    from end_turn_fin [OF this] f show ?thesis by simp
  qed
qed

text \<open>What the loop over the turns of a sub-goal does to the counters, the log and the
  flags, whatever its outcome.\<close>

lemma turn_loop_facts:
  "turn_loop e i s = (r, s') \<Longrightarrow>
     turns_this_sub s \<le> turns_this_sub s'
     \<and> int (turns_this_sub s') \<le> max (max_agent_steps e) (int (turns_this_sub s))
     \<and> substep_results s' = substep_results s
     \<and> global_turn_index s' = global_turn_index s + (turns_this_sub s' - turns_this_sub s)
     \<and> turn_subs (step_logs s') = turn_subs (step_logs s) @ replicate (turns_this_sub s' - turns_this_sub s) i
     \<and> (flags_agree s \<longrightarrow> flags_agree s')
     \<and> (r = Inr () \<longrightarrow> finished s' \<or> max_agent_steps e \<le> int (turns_this_sub s'))
     \<and> ((\<forall>g items. create_turn e g = Some items \<longrightarrow> \<not> list_ex is_end_test_success items)
          \<longrightarrow> finished s' = finished s)"
proof (induction e i s arbitrary: r s' rule: turn_loop.induct)
  case (1 e i s)
  show ?case
  proof (cases "int (turns_this_sub s) < max_agent_steps e \<and> \<not> finished s")
    case False
    with "1.prems" have "s' = s" "r = Inr ()" by (simp_all add: turn_loop.simps)
    with False show ?thesis by auto
  next
    case True
    obtain r1 s1 where t: "run_turn e i s = (r1, s1)" by (cases "run_turn e i s")
    note c = run_turn_counts [OF t]
    show ?thesis
    proof (cases r1)
      case (Inl ex)
      with True t "1.prems" have "s' = s1" "r = Inl ex" by (simp_all add: turn_loop.simps)
      with True c run_turn_flags [OF t] run_turn_no_success [OF t] show ?thesis by auto
    next
      case (Inr u)
      with True t "1.prems" have l: "turn_loop e i s1 = (r, s')" by (simp add: turn_loop.simps)
      from "1.IH" [OF True t [symmetric] Inr l] have ih:
        "turns_this_sub s1 \<le> turns_this_sub s'"
        "int (turns_this_sub s') \<le> max (max_agent_steps e) (int (turns_this_sub s1))"
        "substep_results s' = substep_results s1"
        "global_turn_index s' = global_turn_index s1 + (turns_this_sub s' - turns_this_sub s1)"
        "turn_subs (step_logs s') = turn_subs (step_logs s1) @ replicate (turns_this_sub s' - turns_this_sub s1) i"
        "flags_agree s1 \<longrightarrow> flags_agree s'"
        "r = Inr () \<longrightarrow> finished s' \<or> max_agent_steps e \<le> int (turns_this_sub s')"
        "(\<forall>g items. create_turn e g = Some items \<longrightarrow> \<not> list_ex is_end_test_success items)
          \<longrightarrow> finished s' = finished s1"
        by simp_all
      have n: "turns_this_sub s' - turns_this_sub s = Suc (turns_this_sub s' - turns_this_sub s1)"
        using c(1) ih(1) by simp
      show ?thesis
      proof (intro conjI)
        show "turns_this_sub s \<le> turns_this_sub s'" using c(1) ih(1) by simp
        show "int (turns_this_sub s') \<le> max (max_agent_steps e) (int (turns_this_sub s))"
          using c(1) ih(2) True by simp
        show "substep_results s' = substep_results s" using c(3) ih(3) by simp
        show "global_turn_index s' = global_turn_index s + (turns_this_sub s' - turns_this_sub s)"
          using c(2) ih(4) n by simp
        show "turn_subs (step_logs s') = turn_subs (step_logs s) @ replicate (turns_this_sub s' - turns_this_sub s) i"
          using c(4) ih(5) n by (simp add: replicate_append_same)
        show "flags_agree s \<longrightarrow> flags_agree s'" using run_turn_flags [OF t] ih(6) by blast
        show "r = Inr () \<longrightarrow> finished s' \<or> max_agent_steps e \<le> int (turns_this_sub s')" using ih(7) .
        show "(\<forall>g items. create_turn e g = Some items \<longrightarrow> \<not> list_ex is_end_test_success items)
          \<longrightarrow> finished s' = finished s" using run_turn_no_success [OF t] ih(8) by simp
      qed
    qed
  qed
qed

text \<open>The backend never answers with a successful \<open>END_TEST\<close>.\<close>

definition no_success_signal :: "agent_env \<Rightarrow> bool" where
  "no_success_signal e = (\<forall>g items. create_turn e g = Some items \<longrightarrow> \<not> list_ex is_end_test_success items)"

lemma turn_subs_log_other: "\<forall>j t g. m \<noteq> LogTurn j t g \<Longrightarrow> turn_subs (step_logs (log m s)) = turn_subs (step_logs s)"
  by (cases m) (simp_all add: log_def)

lemma run_substep_facts:
  assumes "run_substep e i sub s = (r, s')"
  shows "\<exists>n. int n \<le> max (max_agent_steps e) 0
     \<and> turn_subs (step_logs s') = turn_subs (step_logs s) @ replicate n i
     \<and> global_turn_index s' = global_turn_index s + n
     \<and> (case r of
          Inl ex \<Rightarrow> substep_results s' = substep_results s
        | Inr ok \<Rightarrow> substep_results s' = substep_results s @ [\<lparr>res_index = i, res_ok = ok, res_turns = n\<rparr>]
                    \<and> (\<not> ok \<longrightarrow> max_agent_steps e \<le> int n)
                    \<and> (no_success_signal e \<longrightarrow> \<not> ok))"
proof (cases "\<exists>d. sub = PDict d")
  case False
  then have "run_substep e i sub s = (Inl AttributeError, s)"
    by (cases sub) (simp_all add: run_substep_def)
  with assms show ?thesis by (intro exI [of _ 0]) auto
next
  case True
  then obtain d where PDict: "sub = PDict d" by blast
  obtain r1 s1 where d1: "dev_step e (Screenshot TempFile) s = (r1, s1)"
    by (cases "dev_step e (Screenshot TempFile) s")
  from same_sub_dev_step [OF d1] have f1: "same_sub s s1" .
  show ?thesis
  proof (cases r1)
    case (Inl ex)
    with assms PDict d1 have "r = Inl ex" "s' = s1" by (simp_all add: run_substep_def and_then_def)
    with f1 show ?thesis by (intro exI [of _ 0]) (simp add: same_sub_def)
  next
    case (Inr u)
    let ?s2 = "s1\<lparr>finished := False, explicit_success := None, last_sig := None,
                          repeat_count := 0, turns_this_sub := 0\<rparr>"
    obtain r3 s3 where t: "turn_loop e i ?s2 = (r3, s3)" by (cases "turn_loop e i ?s2")
    from turn_loop_facts [OF t] have tf:
      "int (turns_this_sub s3) \<le> max (max_agent_steps e) 0"
      "substep_results s3 = substep_results s1"
      "global_turn_index s3 = global_turn_index s1 + turns_this_sub s3"
      "turn_subs (step_logs s3) = turn_subs (step_logs s1) @ replicate (turns_this_sub s3) i"
      "flags_agree s3"
      "r3 = Inr () \<longrightarrow> finished s3 \<or> max_agent_steps e \<le> int (turns_this_sub s3)"
      "no_success_signal e \<longrightarrow> \<not> finished s3"
      by (simp_all add: flags_agree_def no_success_signal_def)
    show ?thesis
    proof (cases r3)
      case (Inl ex)
      with assms PDict d1 Inr t have "r = Inl ex" "s' = s3" by (simp_all add: run_substep_def and_then_def)
      with tf f1 show ?thesis by (intro exI [of _ "turns_this_sub s3"]) (simp add: same_sub_def)
    next
      case Inr2: (Inr u2)
      let ?ok = "case explicit_success s3 of Some b \<Rightarrow> b | None \<Rightarrow> False"
      let ?s4 = "s3\<lparr>substep_results := substep_results s3 @
                          [\<lparr>res_index = i, res_ok = ?ok, res_turns = turns_this_sub s3\<rparr>]\<rparr>"
      have ok: "?ok = finished s3" using tf(5) by (simp add: flags_agree_def)
      from assms PDict d1 Inr t Inr2 have rs: "r = Inr ?ok" "s' = (if ?ok then ?s4 else log (LogAborting i) ?s4)"
        by (simp_all add: run_substep_def and_then_def Let_def)
      have l: "turn_subs (step_logs s') = turn_subs (step_logs s3)"
        and g: "global_turn_index s' = global_turn_index s3"
        and sr: "substep_results s' = substep_results s3 @ [\<lparr>res_index = i, res_ok = ?ok, res_turns = turns_this_sub s3\<rparr>]"
        unfolding rs(2) by (simp_all add: log_def)
      show ?thesis
        apply (intro exI [of _ "turns_this_sub s3"])
        using tf f1 Inr2 ok l g sr rs(1) by (auto simp: same_sub_def)
    qed
  qed
qed

text \<open>A backend that never asks for anything, with a budget of three turns.\<close>

definition idle_env :: agent_env where
  "idle_env = \<lparr>device_ok = always_ok, create_turn = (\<lambda>g. Some []),
                device_resolution = (\<lambda>g. (1080, 2400)), device_rotation = (\<lambda>g. 0),
                recorder_starts = True, max_agent_steps = 3\<rparr>"



section \<open>Sub-goal sequencing\<close>

text \<open>A specification always yields at least one sub-goal.\<close>

lemma steps_spec_nonempty: "steps_spec_of spec \<noteq> []"
  by (simp add: steps_spec_of_def split: pyval.splits list.splits)

text \<open>The results and the turns that the loop over the sub-goals adds: results are numbered
  in order, all but the last are ok, and a turn belongs to a sub-goal whose predecessors
  all succeeded.\<close>

lemma run_substeps_facts:
  "run_substeps e i subs s = (r, s') \<Longrightarrow>
    \<exists>rs ts. substep_results s' = substep_results s @ rs
      \<and> turn_subs (step_logs s') = turn_subs (step_logs s) @ ts
      \<and> length rs \<le> length subs
      \<and> map res_index rs = [i ..< i + length rs]
      \<and> list_all res_ok (butlast rs)
      \<and> (r = Inr () \<and> list_all res_ok rs \<longrightarrow> length rs = length subs)
      \<and> (r \<noteq> Inr () \<longrightarrow> list_all res_ok rs \<and> length rs < length subs)
      \<and> (\<forall>j \<in> set ts. i \<le> j \<and> j \<le> i + length (filter res_ok rs))"
proof (induction subs arbitrary: i s)
  case Nil
  then have "s' = s" "r = Inr ()" by simp_all
  then show ?case by (intro exI [of _ "[]"]) simp
next
  case (Cons sub subs)
  obtain r1 s1 where p: "run_substep e i sub s = (r1, s1)" by (cases "run_substep e i sub s")
  from run_substep_facts [OF p] obtain n where n:
    "turn_subs (step_logs s1) = turn_subs (step_logs s) @ replicate n i"
    "case r1 of
          Inl ex \<Rightarrow> substep_results s1 = substep_results s
        | Inr ok \<Rightarrow> substep_results s1 = substep_results s @ [\<lparr>res_index = i, res_ok = ok, res_turns = n\<rparr>]
                    \<and> (\<not> ok \<longrightarrow> max_agent_steps e \<le> int n)
                    \<and> (no_success_signal e \<longrightarrow> \<not> ok)"
    by blast
  show ?case
  proof (cases r1)
    case (Inl ex)
    with Cons.prems p have "r = Inl ex" "s' = s1" by simp_all
    with n Inl show ?thesis
      by (intro exI [of _ "[]"] exI [of _ "replicate n i"]) simp
  next
    case (Inr ok)
    with n(2) have sr: "substep_results s1 = substep_results s @ [\<lparr>res_index = i, res_ok = ok, res_turns = n\<rparr>]"
      by simp
    show ?thesis
    proof (cases ok)
      case False
      with Cons.prems p Inr have "r = Inr ()" "s' = s1" by simp_all
      with n(1) sr False show ?thesis
        by (intro exI [of _ "[\<lparr>res_index = i, res_ok = ok, res_turns = n\<rparr>]"] exI [of _ "replicate n i"]) simp
    next
      case True
      with Cons.prems p Inr have "run_substeps e (Suc i) subs s1 = (r, s')" by simp
      from Cons.IH [OF this] obtain rs ts where ih:
        "substep_results s' = substep_results s1 @ rs"
        "turn_subs (step_logs s') = turn_subs (step_logs s1) @ ts"
        "length rs \<le> length subs"
        "map res_index rs = [Suc i ..< Suc i + length rs]"
        "list_all res_ok (butlast rs)"
        "r = Inr () \<and> list_all res_ok rs \<longrightarrow> length rs = length subs"
        "r \<noteq> Inr () \<longrightarrow> list_all res_ok rs \<and> length rs < length subs"
        "\<forall>j \<in> set ts. Suc i \<le> j \<and> j \<le> Suc i + length (filter res_ok rs)"
        by blast
      let ?x = "\<lparr>res_index = i, res_ok = ok, res_turns = n\<rparr>"
      have ix: "map res_index (?x # rs) = [i ..< i + length (?x # rs)]"
        using ih(4) by (simp add: upt_rec)
      have bl: "list_all res_ok (butlast (?x # rs))"
        using ih(5) True by simp
      have tb: "\<forall>j \<in> set (replicate n i @ ts). i \<le> j \<and> j \<le> i + length (filter res_ok (?x # rs))"
        using ih(8) True by auto
      show ?thesis
        apply (intro exI [of _ "?x # rs"] exI [of _ "replicate n i @ ts"] conjI)
        using ih(1) sr apply simp
        using ih(2) n(1) apply simp
        using ih(3) apply simp
        using ix apply simp
        using bl apply simp
        using ih(6) True apply simp
        using ih(7) True apply simp
        using tb apply simp
        done
    qed
  qed
qed

text \<open>A result that is not ok is the last one.\<close>

lemma last_failure:
  assumes "list_all res_ok (butlast rs)" and "map res_index rs = [1 ..< 1 + length rs]"
    and "res \<in> set rs" and "\<not> res_ok res"
  shows "1 + length (filter res_ok rs) = res_index res"
proof -
  from assms(3) have ne: "rs \<noteq> []" by auto
  then have rs: "rs = butlast rs @ [last rs]" by simp
  have "res \<notin> set (butlast rs)" using assms(1,4) by (auto simp: list_all_iff)
  with assms(3) rs have l: "res = last rs" by (metis Un_iff empty_iff empty_set set_ConsD set_append)
  have "filter res_ok rs = filter res_ok (butlast rs) @ filter res_ok [last rs]"
    by (metis rs filter_append)
  also have "\<dots> = butlast rs" using assms(1,4) l by (simp add: list_all_iff)
  finally have c: "length (filter res_ok rs) = length rs - 1" by simp
  have "res_index (last rs) = last (map res_index rs)" using ne by (simp add: last_map)
  also have "\<dots> = length rs"
  proof -
    from ne have "Suc 0 \<le> length rs" by (cases rs) simp_all
    with assms(2) show ?thesis by simp
  qed
  finally show ?thesis using c l ne by (cases rs) simp_all
qed

lemma agent_loop_cases:
  assumes "agent_loop e steps = (sm, s)"
  shows "(\<not> recorder_starts e \<and> sum_ok sm = False \<and> substep_results s = [] \<and> turn_subs (step_logs s) = [])
    \<or> (\<exists>r s1. run_substeps e 1 steps (log LogRecordingStarted initial_state) = (r, s1)
          \<and> substep_results s = substep_results s1 \<and> turn_subs (step_logs s) = turn_subs (step_logs s1)
          \<and> sum_ok sm = (r = Inr () \<and> substep_results s1 \<noteq> [] \<and> list_all res_ok (substep_results s1)))"
proof (cases "recorder_starts e")
  case False
  with assms show ?thesis by (auto simp: agent_loop_def log_def initial_state_def)
next
  case True
  obtain r s1 where p: "run_substeps e 1 steps (log LogRecordingStarted initial_state) = (r, s1)"
    by (cases "run_substeps e 1 steps (log LogRecordingStarted initial_state)")
  show ?thesis
  proof (cases r)
    case (Inl ex)
    with assms True p show ?thesis by (auto simp: agent_loop_def log_def)
  next
    case (Inr u)
    with assms True p show ?thesis by (auto simp: agent_loop_def)
  qed
qed

text \<open>A specification with two sub-goals.\<close>

definition two_goals :: pydict where
  "two_goals = [(''package'', PStr ''com.example.app''),
                (''steps'', PList [PDict [(''goal'', PStr ''log in'')], PDict [(''goal'', PStr ''log out'')]])]"

text \<open>
  Claim C2. For every run of the agent loop on a specification, the summary's \<open>ok\<close> is true
  iff every sub-goal of the specification's sequence has a result and every result is ok
  (and the exit status is 0 exactly then). The results are those of sub-goals 1, 2, ... in
  order and all but the last are ok; a turn of sub-goal \<open>j\<close> runs only when the \<open>j - 1\<close>
  sub-goals before it all succeeded; so after a sub-goal whose result is not ok no later
  sub-goal runs any turn. In particular, when sub-goal 1 of two exhausts its budget,
  sub-goal 2 runs no turn and the run is not ok.
\<close>

theorem subgoal_sequencing:
  assumes "run_agent_loop e spec = (sm, s)"
  shows "(sum_ok sm \<longleftrightarrow>
            length (substep_results s) = length (steps_spec_of spec) \<and> list_all res_ok (substep_results s))
       \<and> map res_index (substep_results s) = [1 ..< 1 + length (substep_results s)]
       \<and> list_all res_ok (butlast (substep_results s))
       \<and> (\<forall>j \<in> set (turn_subs (step_logs s)). 1 \<le> j \<and> j \<le> 1 + length (filter res_ok (substep_results s)))
       \<and> (\<forall>res \<in> set (substep_results s). \<not> res_ok res \<longrightarrow>
             (\<forall>j \<in> set (turn_subs (step_logs s)). j \<le> res_index res))
       \<and> (exit_status sm = 0 \<longleftrightarrow> sum_ok sm)"
proof -
  let ?steps = "steps_spec_of spec"
  have ne: "?steps \<noteq> []" by (rule steps_spec_nonempty)
  from assms have a: "agent_loop e ?steps = (sm, s)" by (simp add: run_agent_loop_def)
  have main: "(sum_ok sm \<longleftrightarrow> length (substep_results s) = length ?steps \<and> list_all res_ok (substep_results s))
       \<and> map res_index (substep_results s) = [1 ..< 1 + length (substep_results s)]
       \<and> list_all res_ok (butlast (substep_results s))
       \<and> (\<forall>j \<in> set (turn_subs (step_logs s)). 1 \<le> j \<and> j \<le> 1 + length (filter res_ok (substep_results s)))"
    using agent_loop_cases [OF a]
  proof
    assume "\<not> recorder_starts e \<and> sum_ok sm = False \<and> substep_results s = [] \<and> turn_subs (step_logs s) = []"
    with ne show ?thesis by simp
  next
    assume "\<exists>r s1. run_substeps e 1 ?steps (log LogRecordingStarted initial_state) = (r, s1)
          \<and> substep_results s = substep_results s1 \<and> turn_subs (step_logs s) = turn_subs (step_logs s1)
          \<and> sum_ok sm = (r = Inr () \<and> substep_results s1 \<noteq> [] \<and> list_all res_ok (substep_results s1))"
    then obtain r s1 where p: "run_substeps e 1 ?steps (log LogRecordingStarted initial_state) = (r, s1)"
      and e1: "substep_results s = substep_results s1" and e2: "turn_subs (step_logs s) = turn_subs (step_logs s1)"
      and ok: "sum_ok sm = (r = Inr () \<and> substep_results s1 \<noteq> [] \<and> list_all res_ok (substep_results s1))"
      by blast
    have z: "substep_results (log LogRecordingStarted initial_state) = []"
      "turn_subs (step_logs (log LogRecordingStarted initial_state)) = []"
      by (simp_all add: log_def initial_state_def)
    from run_substeps_facts [OF p] z obtain rs ts where f:
      "substep_results s1 = rs" "turn_subs (step_logs s1) = ts"
      "length rs \<le> length ?steps"
      "map res_index rs = [1 ..< 1 + length rs]"
      "list_all res_ok (butlast rs)"
      "r = Inr () \<and> list_all res_ok rs \<longrightarrow> length rs = length ?steps"
      "r \<noteq> Inr () \<longrightarrow> list_all res_ok rs \<and> length rs < length ?steps"
      "\<forall>j \<in> set ts. 1 \<le> j \<and> j \<le> 1 + length (filter res_ok rs)"
      by auto
    have "sum_ok sm \<longleftrightarrow> length rs = length ?steps \<and> list_all res_ok rs"
      unfolding ok f(1) using f(6,7) ne by auto
    with f e1 e2 show ?thesis by simp
  qed
  have lf: "\<forall>res \<in> set (substep_results s). \<not> res_ok res \<longrightarrow>
             (\<forall>j \<in> set (turn_subs (step_logs s)). j \<le> res_index res)"
  proof (intro ballI impI)
    fix res j
    assume r: "res \<in> set (substep_results s)" "\<not> res_ok res" and j: "j \<in> set (turn_subs (step_logs s))"
    from main r have "1 + length (filter res_ok (substep_results s)) = res_index res"
      by (intro last_failure) simp_all
    with main j show "j \<le> res_index res" by auto
  qed
  have "exit_status sm = 0 \<longleftrightarrow> sum_ok sm" by (simp add: exit_status_def)
  with main lf show ?thesis by blast
qed

theorem subgoal_sequencing_witness:
  "steps_spec_of two_goals = [PDict [(''goal'', PStr ''log in'')], PDict [(''goal'', PStr ''log out'')]]
   \<and> no_success_signal idle_env
   \<and> substep_results (snd (run_agent_loop idle_env two_goals)) = [\<lparr>res_index = 1, res_ok = False, res_turns = 3\<rparr>]
   \<and> turn_subs (step_logs (snd (run_agent_loop idle_env two_goals))) = [1, 1, 1]
   \<and> sum_ok (fst (run_agent_loop idle_env two_goals)) = False
   \<and> sum_errors (fst (run_agent_loop idle_env two_goals)) = []
   \<and> exit_status (fst (run_agent_loop idle_env two_goals)) \<noteq> 0
   \<and> 2 \<notin> set (turn_subs (step_logs (snd (run_agent_loop idle_env two_goals))))"
proof -
  have a: "steps_spec_of two_goals = [PDict [(''goal'', PStr ''log in'')], PDict [(''goal'', PStr ''log out'')]]"
    by (simp add: steps_spec_of_def two_goals_def dget_def dget_default_def has_key_def)
  have b: "no_success_signal idle_env"
    by (simp add: no_success_signal_def idle_env_def)
  have c: "substep_results (snd (run_agent_loop idle_env two_goals)) = [\<lparr>res_index = 1, res_ok = False, res_turns = 3\<rparr>]"
    by code_simp
  have d: "turn_subs (step_logs (snd (run_agent_loop idle_env two_goals))) = [1, 1, 1]"
    by code_simp
  have e: "sum_errors (fst (run_agent_loop idle_env two_goals)) = []"
    by code_simp
  note w = subgoal_sequencing [of idle_env two_goals "fst (run_agent_loop idle_env two_goals)"
      "snd (run_agent_loop idle_env two_goals)", simplified]
  from w a c have f: "sum_ok (fst (run_agent_loop idle_env two_goals)) = False"
    by simp
  from w f have g: "exit_status (fst (run_agent_loop idle_env two_goals)) \<noteq> 0"
    by blast
  from w c have "\<forall>j \<in> set (turn_subs (step_logs (snd (run_agent_loop idle_env two_goals)))). j \<le> 1"
    by simp
  then have h: "2 \<notin> set (turn_subs (step_logs (snd (run_agent_loop idle_env two_goals))))"
    by fastforce
  from a b c d e f g h show ?thesis by blast
qed

end
